theory Spec2Isabelle
  imports Main "HOL-Library.Sublist"
begin

section \<open>Attachment extraction from e-mail files: a model of attachments-extractor.py\<close>

text \<open>
  The program reads message files, asks the standard e-mail parser which parts are
  attachments, and writes each one below the directory \<open>attachments\<close>.  The parser, the
  file system, the random generator and the two output streams are the program's
  environment.  A message is modelled by what its accessors answer, the rest of the
  environment by the record \<open>world\<close>, which every operation takes and returns.

  Python strings are modelled as \<open>string\<close>.  Every character the program inspects
  (the reserved characters, \<open>/\<close>, \<open>.\<close>, \<open>_\<close>) is ASCII, so a character outside ASCII
  is never matched, whatever its representation.  Paths follow \<open>posixpath\<close>.
\<close>

subsection \<open>Exceptions\<close>

text \<open>
  Every exception the program can meet is a subclass of \<open>Exception\<close>; the argument is
  the text \<open>str(err)\<close> gives.
\<close>

datatype error =
    TypeError string
  | IndexError string
  | FileNotFoundError string
  | FileExistsError string
  | IsADirectoryError string
  | OSError string
  | OtherError string

fun str_of_error :: "error \<Rightarrow> string" where
  "str_of_error (TypeError m) = m"
| "str_of_error (IndexError m) = m"
| "str_of_error (FileNotFoundError m) = m"
| "str_of_error (FileExistsError m) = m"
| "str_of_error (IsADirectoryError m) = m"
| "str_of_error (OSError m) = m"
| "str_of_error (OtherError m) = m"

subsection \<open>Messages, as the parser presents them\<close>

text \<open>
  One field for each accessor the program calls on an \<open>EmailMessage\<close>:
  \<open>get_payload_0\<close> is \<open>get_payload(0)\<close>, which raises when the payload is no list or
  is empty; \<open>get_payload_decode\<close> is \<open>get_payload(decode=True)\<close>, which is \<open>None\<close> for
  a multipart message; \<open>flatten\<close> is the text \<open>Generator.flatten\<close> writes for the
  message, with the exception that interrupted it, if any.
\<close>

datatype msg = Msg
  (is_multipart: bool)
  (iter_attachments: "msg list")
  (is_attachment: bool)
  (get_content_disposition: "string option")
  (get_content_type: string)
  (get_filename: "string option")
  (get_payload_0: "error + msg")
  (get_payload_decode: "string option")
  (flatten: "string \<times> error option")

subsection \<open>\<open>get_attachments\<close>\<close>

text \<open>
  The function has no \<open>else\<close> branch: a message that is neither multipart, nor an
  attachment, nor inline falls off the end, and the caller receives \<open>None\<close>.
\<close>

definition get_attachments :: "msg \<Rightarrow> msg list option" where
  "get_attachments m =
     (if is_multipart m then Some (iter_attachments m)
      else if is_attachment m \<or> get_content_disposition m = Some ''inline'' then Some [m]
      else None)"

subsection \<open>\<open>sanitize_filename\<close>\<close>

text \<open>
  The pattern is a single character class.  \<open>class_pattern\<close> is the text between the
  outer brackets of the source's raw string, character by character; \<open>class_items\<close>
  reads it as \<open>re\<close> does for a class without ranges or negation: a backslash makes the
  next character a literal member.
\<close>

abbreviation backslash :: char where "backslash \<equiv> CHR 0x5C"
abbreviation dquote :: char where "dquote \<equiv> CHR 0x22"
abbreviation squote :: char where "squote \<equiv> CHR 0x27"

definition class_pattern :: string where
  "class_pattern =
     [CHR ''/'', backslash, backslash, CHR ''|'', backslash, CHR ''['', backslash, CHR '']'',
      backslash, CHR ''{'', backslash, CHR ''}'', CHR '':'', CHR ''<'', CHR ''>'', CHR ''+'',
      CHR ''='', CHR '';'', CHR '','', CHR ''?'', CHR ''!'', CHR ''*'', backslash, dquote,
      CHR ''~'', CHR ''#'', CHR ''$'', CHR ''%'', CHR ''&'', CHR ''@'', squote]"

fun class_items :: "string \<Rightarrow> string" where
  "class_items (c # d # cs) =
     (if c = backslash then d # class_items cs else c # class_items (d # cs))"
| "class_items cs = cs"

text \<open>
  \<open>re.sub\<close> with a pattern that is one character class: every match is one character,
  matches cannot overlap, and each is replaced by the replacement text.
\<close>

definition re_sub_class :: "string \<Rightarrow> string \<Rightarrow> string \<Rightarrow> string" where
  "re_sub_class pat repl s =
     concat (map (\<lambda>c. if c \<in> set (class_items pat) then repl else [c]) s)"

text \<open>\<open>get_filename()\<close> may be \<open>None\<close>, and \<open>re.sub\<close> raises \<open>TypeError\<close> on it.\<close>

definition sanitize_filename :: "string option \<Rightarrow> error + string" where
  "sanitize_filename filename =
     (case filename of
        None \<Rightarrow> Inl (TypeError ''expected string or bytes-like object'')
      | Some s \<Rightarrow> Inr (re_sub_class class_pattern ''_'' s))"

text \<open>The twenty-five reserved characters, as the specification lists them.\<close>

definition reserved :: "char set" where
  "reserved =
     {CHR ''/'', backslash, CHR ''|'', CHR ''['', CHR '']'', CHR ''{'', CHR ''}'', CHR '':'',
      CHR ''<'', CHR ''>'', CHR ''+'', CHR ''='', CHR '';'', CHR '','', CHR ''?'', CHR ''!'',
      CHR ''*'', dquote, CHR ''~'', CHR ''#'', CHR ''$'', CHR ''%'', CHR ''&'', CHR ''@'',
      squote}"

subsection \<open>Paths (\<open>posixpath\<close>)\<close>

type_synonym path = string

text \<open>\<open>str.rfind\<close> for a single character: the last index, or \<open>-1\<close>.\<close>

fun rfind :: "char \<Rightarrow> string \<Rightarrow> int" where
  "rfind c [] = - 1"
| "rfind c (x # xs) =
     (let r = rfind c xs in if 0 \<le> r then r + 1 else if x = c then 0 else - 1)"

text \<open>
  \<open>genericpath._splitext\<close> with separator \<open>/\<close>, no alternative separator and
  extension separator \<open>.\<close>.  The loop skips the dots a file name starts with;
  \<open>p[i:i+1]\<close> is a slice and never raises.
\<close>

function splitext_loop :: "path \<Rightarrow> nat \<Rightarrow> nat \<Rightarrow> string \<times> string" where
  "splitext_loop p filenameIndex dotIndex =
     (if filenameIndex < dotIndex then
        (if take 1 (drop filenameIndex p) \<noteq> ''.'' then (take dotIndex p, drop dotIndex p)
         else splitext_loop p (filenameIndex + 1) dotIndex)
      else (p, []))"
  by pat_completeness auto
termination
  by (relation "measure (\<lambda>(p, filenameIndex, dotIndex). dotIndex - filenameIndex)") auto

declare splitext_loop.simps [simp del]

definition splitext :: "path \<Rightarrow> string \<times> string" where
  "splitext p =
     (let sepIndex = rfind (CHR ''/'') p;
          dotIndex = rfind (CHR ''.'') p
      in if dotIndex > sepIndex then splitext_loop p (nat (sepIndex + 1)) (nat dotIndex)
         else (p, []))"

definition basename :: "path \<Rightarrow> string" where
  "basename p = drop (nat (rfind (CHR ''/'') p + 1)) p"

definition rstrip_sep :: "string \<Rightarrow> string" where
  "rstrip_sep s = rev (dropWhile (\<lambda>c. c = CHR ''/'') (rev s))"

definition split :: "path \<Rightarrow> string \<times> string" where
  "split p =
     (let i = nat (rfind (CHR ''/'') p + 1);
          head = take i p;
          tail = drop i p
      in (if head \<noteq> [] \<and> head \<noteq> replicate (length head) (CHR ''/'') then rstrip_sep head
          else head,
          tail))"

text \<open>\<open>os.path.join\<close> of two components.\<close>

definition join :: "path \<Rightarrow> string \<Rightarrow> path" where
  "join a b =
     (if take 1 b = ''/'' then b
      else if a = [] \<or> last a = CHR ''/'' then a @ b
      else a @ ''/'' @ b)"

subsection \<open>The environment\<close>

text \<open>
  A file system entry is a directory or a file; a file remembers whether it was written
  in text or in binary mode.  The file system is a map from path strings to entries: a
  path stands for the entry the operating system resolves it to, on a case-sensitive
  file system without links.

  \<open>os_fault\<close> is every other reason the operating system may have to refuse an
  operation (permissions, a parent that is no directory, a full disk, a name it does
  not accept), as a function of the current file system; it gives the message of the
  \<open>OSError\<close>.  \<open>glob_magic\<close> is what
  \<open>glob.glob\<close> answers for a pattern with wildcards.  \<open>rng\<close> holds the values the
  random generator will draw, in order; a run that needs more than the list holds
  ends in \<open>OutOfDraws\<close>.
\<close>

datatype content = Text string | Binary string

datatype node = Dir | File content

datatype op = OpenRead | OpenWrite | Mkdir

record world =
  files :: "path \<Rightarrow> node option"
  os_fault :: "(path \<Rightarrow> node option) \<Rightarrow> op \<Rightarrow> path \<Rightarrow> string option"
  glob_magic :: "string \<Rightarrow> path list"
  rng :: "nat list"
  stdout :: "string list"
  stderr :: "string list"

datatype 'a outcome = Returns 'a world | Raises error world | OutOfDraws

definition and_then :: "'a outcome \<Rightarrow> ('a \<Rightarrow> world \<Rightarrow> 'b outcome) \<Rightarrow> 'b outcome" where
  "and_then m f =
     (case m of Returns x w \<Rightarrow> f x w | Raises e w \<Rightarrow> Raises e w | OutOfDraws \<Rightarrow> OutOfDraws)"

text \<open>The world an operation leaves behind, whether it returned or raised.\<close>

fun final_world :: "'a outcome \<Rightarrow> world option" where
  "final_world (Returns x w) = Some w"
| "final_world (Raises e w) = Some w"
| "final_world OutOfDraws = None"

definition os_path_exists :: "world \<Rightarrow> path \<Rightarrow> bool" where
  "os_path_exists w p = (files w p \<noteq> None)"

definition os_path_isdir :: "world \<Rightarrow> path \<Rightarrow> bool" where
  "os_path_isdir w p = (files w p = Some Dir)"

definition print_out :: "world \<Rightarrow> string \<Rightarrow> world" where
  "print_out w line = w\<lparr>stdout := stdout w @ [line]\<rparr>"

definition print_err :: "world \<Rightarrow> string \<Rightarrow> world" where
  "print_err w line = w\<lparr>stderr := stderr w @ [line]\<rparr>"

text \<open>A name between single quotes, as the messages of \<open>OSError\<close> show it.\<close>

definition quoted :: "string \<Rightarrow> string" where
  "quoted s = [squote] @ s @ [squote]"

text \<open>\<open>open(p, "rb")\<close> followed by reading the whole file.\<close>

definition open_read :: "world \<Rightarrow> path \<Rightarrow> error + content" where
  "open_read w p =
     (case os_fault w (files w) OpenRead p of
        Some m \<Rightarrow> Inl (OSError m)
      | None \<Rightarrow>
          (case files w p of
             None \<Rightarrow> Inl (FileNotFoundError (''[Errno 2] No such file or directory: '' @ quoted p))
           | Some Dir \<Rightarrow> Inl (IsADirectoryError (''[Errno 21] Is a directory: '' @ quoted p))
           | Some (File c) \<Rightarrow> Inr c))"

text \<open>
  \<open>open(p, "w")\<close> and \<open>open(p, "wb")\<close>: the file is created, or truncated if it
  exists, before anything is written; \<open>blank\<close> is the empty content of the mode.
\<close>

definition open_write :: "world \<Rightarrow> path \<Rightarrow> content \<Rightarrow> error + world" where
  "open_write w p blank =
     (case os_fault w (files w) OpenWrite p of
        Some m \<Rightarrow> Inl (OSError m)
      | None \<Rightarrow>
          (case files w p of
             Some Dir \<Rightarrow> Inl (IsADirectoryError (''[Errno 21] Is a directory: '' @ quoted p))
           | _ \<Rightarrow> Inr (w\<lparr>files := (files w)(p \<mapsto> File blank)\<rparr>)))"

definition write_file :: "world \<Rightarrow> path \<Rightarrow> content \<Rightarrow> world" where
  "write_file w p c = w\<lparr>files := (files w)(p \<mapsto> File c)\<rparr>"

definition mkdir :: "world \<Rightarrow> path \<Rightarrow> error + world" where
  "mkdir w p =
     (case os_fault w (files w) Mkdir p of
        Some m \<Rightarrow> Inl (OSError m)
      | None \<Rightarrow>
          if os_path_exists w p then Inl (FileExistsError (''[Errno 17] File exists: '' @ quoted p))
          else Inr (w\<lparr>files := (files w)(p \<mapsto> Dir)\<rparr>))"

text \<open>
  \<open>os.makedirs(name, exist_ok=True)\<close>.  \<open>makedirs_split\<close> is its first two lines:
  the head and tail of the name, taken again from the head when the name ends with a
  separator.  The last step is \<open>mkdir\<close>, whose \<open>OSError\<close> is dropped when the name
  is an existing directory.
\<close>

definition makedirs_split :: "path \<Rightarrow> string \<times> string" where
  "makedirs_split name =
     (let (head, tail) = split name
      in if tail = [] then split head else (head, tail))"

definition mkdir_exist_ok :: "world \<Rightarrow> path \<Rightarrow> unit outcome" where
  "mkdir_exist_ok w name =
     (case mkdir w name of
        Inr w' \<Rightarrow> Returns () w'
      | Inl e \<Rightarrow> if os_path_isdir w name then Returns () w else Raises e w)"

function makedirs :: "world \<Rightarrow> path \<Rightarrow> unit outcome" where
  "makedirs w name =
     (let head = fst (makedirs_split name);
          tail = snd (makedirs_split name)
      in if head \<noteq> [] \<and> tail \<noteq> [] \<and> \<not> os_path_exists w head then
           (case makedirs w head of
              Returns _ w1 \<Rightarrow>
                if tail = ''.'' then Returns () w1 else mkdir_exist_ok w1 name
            | Raises (FileExistsError m) w1 \<Rightarrow>
                if tail = ''.'' then Returns () w1 else mkdir_exist_ok w1 name
            | Raises e w1 \<Rightarrow> Raises e w1
            | OutOfDraws \<Rightarrow> OutOfDraws)
         else mkdir_exist_ok w name)"
  by pat_completeness auto
termination
proof (relation "measure (\<lambda>(w, name). length name)")
  show "wf (measure (\<lambda>(w, name). length name))" by simp
next
  fix w :: world and name :: path and head tail
  assume ht: "head = fst (makedirs_split name)" "tail = snd (makedirs_split name)"
    and c: "head \<noteq> [] \<and> tail \<noteq> [] \<and> \<not> os_path_exists w head"
  have strip: "length (rstrip_sep s) \<le> length s" for s
    using length_dropWhile_le [of "\<lambda>c. c = CHR ''/''" "rev s"] by (simp add: rstrip_sep_def)
  have fst_le: "length (fst (split p)) \<le> length p" for p
    using strip [of "take (nat (rfind (CHR ''/'') p + 1)) p"]
    by (simp add: split_def Let_def)
  have fst_less: "length (fst (split p)) < length p" if "snd (split p) \<noteq> []" for p
    using that strip [of "take (nat (rfind (CHR ''/'') p + 1)) p"]
    by (simp add: split_def Let_def)
  have "length head < length name"
  proof (cases "snd (split name) = []")
    case True
    then have "makedirs_split name = split (fst (split name))"
      by (simp add: makedirs_split_def case_prod_beta)
    with ht c have "length head < length (fst (split name))"
      using fst_less [of "fst (split name)"] by simp
    with fst_le [of name] show ?thesis by simp
  next
    case False
    then have "makedirs_split name = split name"
      by (simp add: makedirs_split_def case_prod_beta)
    with ht False show ?thesis using fst_less [of name] by simp
  qed
  then show "((w, head), (w, name)) \<in> measure (\<lambda>(w, name). length name)" by simp
qed

declare makedirs.simps [simp del]

subsection \<open>\<open>get_unique_path\<close>\<close>

definition ascii_letters :: string where
  "ascii_letters = ''abcdefghijklmnopqrstuvwxyz'' @ ''ABCDEFGHIJKLMNOPQRSTUVWXYZ''"

definition digits :: string where
  "digits = ''0123456789''"

text \<open>\<open>random.choice(seq)\<close> with the drawn value \<open>r\<close>: an element of \<open>seq\<close>.\<close>

definition random_choice :: "string \<Rightarrow> nat \<Rightarrow> char" where
  "random_choice seq r = seq ! (r mod length seq)"

text \<open>
  The \<open>while\<close> loop.  Each round draws five characters; the file system does not
  change, only the draws are used up.
\<close>

function get_unique_path_loop :: "world \<Rightarrow> string \<Rightarrow> string \<Rightarrow> path \<Rightarrow> path outcome" where
  "get_unique_path_loop w filename extension path =
     (if os_path_exists w path then
        (if length (rng w) < 5 then OutOfDraws
         else get_unique_path_loop (w\<lparr>rng := drop 5 (rng w)\<rparr>) filename extension
                (filename @ ''_'' @ map (random_choice (ascii_letters @ digits)) (take 5 (rng w))
                   @ extension))
      else Returns path w)"
  by pat_completeness auto
termination
  by (relation "measure (\<lambda>(w, filename, extension, path). length (rng w))") auto

declare get_unique_path_loop.simps [simp del]

definition get_unique_path :: "world \<Rightarrow> path \<Rightarrow> path outcome" where
  "get_unique_path w path =
     (let (filename, extension) = splitext path
      in get_unique_path_loop w filename extension path)"

subsection \<open>\<open>save_attachment\<close>\<close>

text \<open>
  Lines 33 to 37: the destination.  A missing file name raises in \<open>sanitize_filename\<close>,
  before any path is built.
\<close>

definition destination :: "world \<Rightarrow> path \<Rightarrow> msg \<Rightarrow> bool \<Rightarrow> path outcome" where
  "destination w location attachment keep =
     (case sanitize_filename (get_filename attachment) of
        Inl e \<Rightarrow> Raises e w
      | Inr filename \<Rightarrow>
          (let path = join location filename
           in if keep then get_unique_path w path else Returns path w))"

text \<open>
  Lines 39 to 47: the two ways of writing.  In the first, \<open>get_payload(0)\<close> comes
  before \<open>open\<close>; in the second the file is opened, hence created or truncated, before
  \<open>file.write\<close> meets a payload that is \<open>None\<close>.
\<close>

definition write_payload :: "world \<Rightarrow> path \<Rightarrow> msg \<Rightarrow> unit outcome" where
  "write_payload w path attachment =
     (if get_content_type attachment = ''message/rfc822'' then
        (case get_payload_0 attachment of
           Inl e \<Rightarrow> Raises e w
         | Inr data \<Rightarrow>
             (case open_write w path (Text []) of
                Inl e \<Rightarrow> Raises e w
              | Inr w1 \<Rightarrow>
                  (case snd (flatten data) of
                     None \<Rightarrow> Returns () (write_file w1 path (Text (fst (flatten data))))
                   | Some e \<Rightarrow> Raises e (write_file w1 path (Text (fst (flatten data)))))))
      else
        (let data = get_payload_decode attachment
         in case open_write w path (Binary []) of
              Inl e \<Rightarrow> Raises e w
            | Inr w1 \<Rightarrow>
                (case data of
                   None \<Rightarrow> Raises (TypeError (''a bytes-like object is required, not '' @ quoted ''NoneType'')) w1
                 | Some b \<Rightarrow> Returns () (write_file w1 path (Binary b)))))"

definition save_attachment :: "world \<Rightarrow> path \<Rightarrow> msg \<Rightarrow> bool \<Rightarrow> unit outcome" where
  "save_attachment w location attachment keep =
     and_then (destination w location attachment keep)
       (\<lambda>path w1. write_payload w1 path attachment)"

subsection \<open>\<open>main\<close>\<close>

text \<open>
  \<open>glob.glob\<close>: a pattern without wildcards is returned if the path exists (if the
  directory exists, for a pattern that ends with a separator), and dropped if not.
\<close>

definition has_magic :: "string \<Rightarrow> bool" where
  "has_magic s = list_ex (\<lambda>c. c = CHR ''*'' \<or> c = CHR ''?'' \<or> c = CHR ''['') s"

definition glob :: "world \<Rightarrow> string \<Rightarrow> path list" where
  "glob w pathname =
     (if has_magic pathname then glob_magic w pathname
      else if snd (split pathname) \<noteq> [] then
        (if os_path_exists w pathname then [pathname] else [])
      else
        (if os_path_isdir w (fst (split pathname)) then [pathname] else []))"

text \<open>The decimal text of a length, for the f-string of the result line.\<close>

function str_nat :: "nat \<Rightarrow> string" where
  "str_nat n =
     (if n < 10 then [digits ! n] else str_nat (n div 10) @ [digits ! (n mod 10)])"
  by pat_completeness auto
termination
  by (relation "measure id") auto

declare str_nat.simps [simp del]

text \<open>The \<open>for\<close> loop of lines 104 and 105: the first exception ends it.\<close>

fun save_all :: "world \<Rightarrow> path \<Rightarrow> msg list \<Rightarrow> bool \<Rightarrow> unit outcome" where
  "save_all w location [] keep = Returns () w"
| "save_all w location (attachment # attachments) keep =
     and_then (save_attachment w location attachment keep)
       (\<lambda>_ w1. save_all w1 location attachments keep)"

text \<open>The command line, as \<open>argparse\<close> returns it.\<close>

record args =
  email :: "string list"
  organize :: bool
  keep :: bool

text \<open>Lines 93 to 100: the output directory of one input file.\<close>

definition choose_location :: "args \<Rightarrow> path \<Rightarrow> world \<Rightarrow> path outcome" where
  "choose_location a eml w =
     (let location =
            (if \<not> organize a then ''attachments''
             else join ''attachments'' (basename (fst (splitext eml))))
      in if organize a \<and> keep a then get_unique_path w location else Returns location w)"

text \<open>Lines 93 to 107: the body of the second \<open>try\<close>.\<close>

definition try_extract :: "args \<Rightarrow> path \<Rightarrow> msg list \<Rightarrow> world \<Rightarrow> unit outcome" where
  "try_extract a eml attachments w =
     and_then (choose_location a eml w) (\<lambda>location w1.
     and_then (makedirs w1 location) (\<lambda>_ w2.
     and_then (save_all w2 location attachments (keep a)) (\<lambda>_ w3.
       Returns () (print_out w3 (eml @ '' ('' @ str_nat (length attachments) @ '')'')))))"

text \<open>
  One round of the loop over the input files.  \<open>load_message\<close> is the body of the
  first \<open>try\<close> (lines 80 and 81); \<open>parse\<close> is \<open>email.message_from_binary_file\<close>
  with the default policy.  Both \<open>except\<close> clauses catch every \<open>Exception\<close>, so a
  round ends with a world, or with the draws used up.
\<close>

definition load_message ::
    "(content \<Rightarrow> error + msg) \<Rightarrow> world \<Rightarrow> path \<Rightarrow> error + msg" where
  "load_message parse w eml =
     (case open_read w eml of Inl e \<Rightarrow> Inl e | Inr c \<Rightarrow> parse c)"

definition process_eml ::
    "(content \<Rightarrow> error + msg) \<Rightarrow> args \<Rightarrow> path \<Rightarrow> world \<Rightarrow> world option" where
  "process_eml parse a eml w =
     (case load_message parse w eml of
        Inl e \<Rightarrow> Some (print_err w (''Error: '' @ eml @ '' <failed to read file>''))
      | Inr m \<Rightarrow>
          (case get_attachments m of
             None \<Rightarrow> Some (print_out w (eml @ '' (0)''))
           | Some [] \<Rightarrow> Some (print_out w (eml @ '' (0)''))
           | Some attachments \<Rightarrow>
               (case try_extract a eml attachments w of
                  Returns _ w' \<Rightarrow> Some w'
                | Raises err w' \<Rightarrow>
                    Some (print_err w'
                            (''Error: '' @ basename eml @ '' <'' @ str_of_error err @ ''>''))
                | OutOfDraws \<Rightarrow> None)))"

fun main_loop ::
    "(content \<Rightarrow> error + msg) \<Rightarrow> args \<Rightarrow> path list \<Rightarrow> world \<Rightarrow> world option" where
  "main_loop parse a [] w = Some w"
| "main_loop parse a (eml # emls) w =
     (case process_eml parse a eml w of
        None \<Rightarrow> None
      | Some w' \<Rightarrow> main_loop parse a emls w')"

text \<open>Line 76 expands every argument before the first file is read.\<close>

definition main :: "(content \<Rightarrow> error + msg) \<Rightarrow> args \<Rightarrow> world \<Rightarrow> world option" where
  "main parse a w = main_loop parse a (concat (map (glob w) (email a))) w"

subsection \<open>Relations between the worlds before and after an operation\<close>

text \<open>
  \<open>preserves w w'\<close>: every entry of \<open>w\<close> is an entry of \<open>w'\<close>, unchanged.
  \<open>within location w w'\<close>: the two file systems differ only at \<open>location\<close>, at
  the paths it begins with, and at paths \<open>join location name\<close> for a \<open>name\<close>
  without separator, that is, directly in \<open>location\<close>.
\<close>

definition preserves :: "world \<Rightarrow> world \<Rightarrow> bool" where
  "preserves w w' = (\<forall>p. os_path_exists w p \<longrightarrow> files w' p = files w p)"

definition within :: "path \<Rightarrow> world \<Rightarrow> world \<Rightarrow> bool" where
  "within location w w' =
     (\<forall>p. files w' p \<noteq> files w p \<longrightarrow>
          prefix p location \<or> (\<exists>name. CHR ''/'' \<notin> set name \<and> p = join location name))"

subsection \<open>Example inputs\<close>

text \<open>A message that is not multipart, as the parser presents it.\<close>

definition part :: "string \<Rightarrow> string option \<Rightarrow> string option \<Rightarrow> string \<Rightarrow> msg" where
  "part ctype disposition name body =
     Msg False [] (disposition = Some ''attachment'') disposition ctype name
       (Inl (TypeError ''Expected list, got str'')) (Some body) (body, None)"

definition ex_pdf :: msg where
  "ex_pdf = part ''application/pdf'' (Some ''attachment'') (Some ''invoice.pdf'') ''%PDF-1.4''"

definition ex_logo :: msg where
  "ex_logo = part ''image/png'' (Some ''inline'') (Some ''logo.png'') ''PNG''"

definition ex_body :: msg where
  "ex_body = part ''text/plain'' None None ''hello''"

definition ex_mixed :: msg where
  "ex_mixed =
     Msg True [ex_pdf, ex_logo] False None ''multipart/mixed'' None (Inr ex_body) None
       (''mixed'', None)"

definition ex_docx :: msg where
  "ex_docx = part ''application/msword'' (Some ''attachment'') (Some ''report.docx'') ''new''"

definition ex_nameless :: msg where
  "ex_nameless = part ''image/png'' (Some ''inline'') None ''PNG''"

definition ex_old :: msg where
  "ex_old = part ''text/plain'' (Some ''attachment'') (Some ''old'') ''text''"

definition ex_forward :: msg where
  "ex_forward =
     Msg True [] True (Some ''attachment'') ''message/rfc822'' (Some ''fwd.eml'') (Inr ex_body)
       None (''forward'', None)"

definition ex_nameless_mixed :: msg where
  "ex_nameless_mixed =
     Msg True [ex_pdf, ex_nameless, ex_logo] False None ''multipart/mixed'' None (Inr ex_body)
       None (''mixed'', None)"

definition ex_clash_mixed :: msg where
  "ex_clash_mixed =
     Msg True [ex_pdf, ex_old, ex_logo] False None ''multipart/mixed'' None (Inr ex_body)
       None (''mixed'', None)"

text \<open>
  A file system in which \<open>report.docx\<close> and the first name the resolver would try are
  both taken, \<open>attachments/old\<close> and \<open>attachments/mail\<close> are directories and
  \<open>locked.eml\<close> may not be read; a generator whose first draws select \<open>abcde\<close>,
  \<open>fghij\<close>, \<open>klmno\<close>; a parser that knows three messages.
\<close>

definition ex_world :: world where
  "ex_world =
     \<lparr>files = [''mail.eml'' \<mapsto> File (Binary ''raw''),
               ''nameless.eml'' \<mapsto> File (Binary ''raw nameless''),
               ''clash.eml'' \<mapsto> File (Binary ''raw clash''),
               ''locked.eml'' \<mapsto> File (Binary ''raw''),
               ''attachments'' \<mapsto> Dir,
               ''attachments/old'' \<mapsto> Dir,
               ''attachments/mail'' \<mapsto> Dir,
               ''attachments/report.docx'' \<mapsto> File (Binary ''old''),
               ''attachments/report_abcde.docx'' \<mapsto> File (Binary ''older'')],
      os_fault = (\<lambda>fs operation p.
         if operation = OpenRead \<and> p = ''locked.eml''
         then Some (''[Errno 13] Permission denied: '' @ quoted p) else None),
      glob_magic = (\<lambda>pattern. []),
      rng = [0, 1, 2, 3, 4, 5, 6, 7, 8, 9, 10, 11, 12, 13, 14],
      stdout = [],
      stderr = []\<rparr>"

definition ex_parse :: "content \<Rightarrow> error + msg" where
  "ex_parse c =
     (if c = Binary ''raw'' then Inr ex_mixed
      else if c = Binary ''raw nameless'' then Inr ex_nameless_mixed
      else if c = Binary ''raw clash'' then Inr ex_clash_mixed
      else Inl (OtherError ''not a message''))"

definition ex_args :: "bool \<Rightarrow> bool \<Rightarrow> args" where
  "ex_args o_flag k_flag =
     \<lparr>email = [''missing.eml'', ''locked.eml'', ''mail.eml''], organize = o_flag, keep = k_flag\<rparr>"

section \<open>Properties\<close>

subsection \<open>Selecting attachments\<close>

text \<open>
  C1: for a multipart message the selector returns the parts the parser's
  \<open>iter_attachments\<close> yields, in that order; for any other message it returns the
  one-element list of the message itself exactly when the message is an attachment or
  its content-disposition is \<open>inline\<close>, and nothing (\<open>None\<close>) otherwise.
\<close>

theorem get_attachments_selects:
  "(is_multipart m \<longrightarrow> get_attachments m = Some (iter_attachments m)) \<and>
   (\<not> is_multipart m \<longrightarrow>
      (get_attachments m = Some [m]) =
        (is_attachment m \<or> get_content_disposition m = Some ''inline'') \<and>
      (\<not> (is_attachment m \<or> get_content_disposition m = Some ''inline'') \<longrightarrow>
         get_attachments m = None))"
  by (simp add: get_attachments_def)

theorem get_attachments_selects_witness:
  "is_multipart ex_mixed \<and> get_attachments ex_mixed = Some [ex_pdf, ex_logo] \<and>
   \<not> is_multipart ex_logo \<and> get_attachments ex_logo = Some [ex_logo] \<and>
   \<not> is_multipart ex_body \<and> get_attachments ex_body = None"
  using get_attachments_selects [of ex_mixed] get_attachments_selects [of ex_logo]
    get_attachments_selects [of ex_body]
  by (simp add: ex_mixed_def ex_logo_def ex_body_def part_def)

subsection \<open>Sanitizing file names\<close>

lemma class_items_pattern: "set (class_items class_pattern) = reserved"
  by (simp add: class_pattern_def reserved_def insert_commute)

lemma underscore_not_reserved: "CHR ''_'' \<notin> reserved"
  by (simp add: reserved_def)

lemma re_sub_class_char:
  "re_sub_class pat [r] s = map (\<lambda>c. if c \<in> set (class_items pat) then r else c) s"
  by (induction s) (simp_all add: re_sub_class_def)

lemma sanitize_filename_map:
  "sanitize_filename (Some s) = Inr (map (\<lambda>c. if c \<in> reserved then CHR ''_'' else c) s)"
  by (simp add: sanitize_filename_def re_sub_class_char class_items_pattern)

text \<open>
  C2: on every string the sanitizer returns a string of the same length in which each
  position holds an underscore where the input holds one of the twenty-five reserved
  characters, and the input's character everywhere else.
\<close>

theorem sanitize_filename_replaces_reserved:
  "\<exists>t. sanitize_filename (Some s) = Inr t \<and> length t = length s \<and>
       (\<forall>i<length s. t ! i = (if s ! i \<in> reserved then CHR ''_'' else s ! i))"
  by (simp add: sanitize_filename_map)

theorem sanitize_filename_replaces_reserved_witness:
  "sanitize_filename (Some ''../a:b?.p df'') = Inr ''.._a_b_.p df'' \<and>
   length ''.._a_b_.p df'' = length ''../a:b?.p df'' \<and>
   ''../a:b?.p df'' ! 2 \<in> reserved \<and> ''.._a_b_.p df'' ! 2 = CHR ''_'' \<and>
   ''../a:b?.p df'' ! 0 \<notin> reserved \<and> ''.._a_b_.p df'' ! 0 = ''../a:b?.p df'' ! 0"
  using sanitize_filename_replaces_reserved [of "''../a:b?.p df''"]
  by (simp add: sanitize_filename_map reserved_def)

text \<open>
  C9: the sanitizer is a function of the file name alone (it neither reads nor changes
  the world), and applying it to its own result changes nothing.
\<close>

theorem sanitize_filename_idempotent:
  "\<exists>t. sanitize_filename (Some s) = Inr t \<and> sanitize_filename (Some t) = Inr t"
  by (simp add: sanitize_filename_map underscore_not_reserved)

subsection \<open>Paths\<close>

lemma rfind_bounds: "- 1 \<le> rfind c s \<and> rfind c s < int (length s)"
  by (induction s) (auto simp: Let_def)

lemma rfind_notin: "c \<notin> set s \<Longrightarrow> rfind c s = - 1"
  by (induction s) (auto simp: Let_def)

lemma rfind_in: "c \<in> set s \<Longrightarrow> 0 \<le> rfind c s"
  by (induction s) (auto simp: Let_def)

lemma rfind_append:
  "rfind c (a @ b) = (if c \<in> set b then int (length a) + rfind c b else rfind c a)"
proof (induction a)
  case Nil
  then show ?case by (simp add: rfind_notin)
next
  case (Cons x a)
  then show ?case using rfind_in [of c b] rfind_bounds [of c a]
    by (auto simp: Let_def)
qed

lemma splitext_loop_eq:
  "splitext_loop p i d =
     (if \<exists>k. i \<le> k \<and> k < d \<and> take 1 (drop k p) \<noteq> ''.'' then (take d p, drop d p)
      else (p, []))"
proof (induction p i d rule: splitext_loop.induct)
  case (1 p i d)
  show ?case
  proof (cases "i < d")
    case False
    then show ?thesis by (subst splitext_loop.simps) auto
  next
    case True
    show ?thesis
    proof (cases "take 1 (drop i p) \<noteq> ''.''")
      case True
      with \<open>i < d\<close> show ?thesis by (subst splitext_loop.simps) auto
    next
      case False
      then have eq: "splitext_loop p i d = splitext_loop p (i + 1) d"
        using \<open>i < d\<close> by (subst splitext_loop.simps) simp
      have "(\<exists>k. i \<le> k \<and> k < d \<and> take 1 (drop k p) \<noteq> ''.'') =
            (\<exists>k. i + 1 \<le> k \<and> k < d \<and> take 1 (drop k p) \<noteq> ''.'')"
        using False by (metis Suc_eq_plus1 Suc_leI le_neq_implies_less less_imp_le_nat less_le_trans lessI)
      with eq "1.IH" [OF \<open>i < d\<close>] False show ?thesis by simp
    qed
  qed
qed

lemma splitext_eq:
  "splitext p =
     (if rfind (CHR ''/'') p < rfind (CHR ''.'') p \<and>
         (\<exists>k. nat (rfind (CHR ''/'') p + 1) \<le> k \<and> k < nat (rfind (CHR ''.'') p) \<and>
              take 1 (drop k p) \<noteq> ''.'')
      then (take (nat (rfind (CHR ''.'') p)) p, drop (nat (rfind (CHR ''.'') p)) p)
      else (p, []))"
  unfolding splitext_def Let_def splitext_loop_eq by auto

lemma splitext_append: "fst (splitext p) @ snd (splitext p) = p"
  by (simp add: splitext_eq)

lemma take1_drop_append:
  "k < length p \<Longrightarrow> take 1 (drop k (p @ x)) = take 1 (drop k p)"
  by simp

lemma split_at_length:
  "(take (length (u @ x)) (u @ x @ v), drop (length (u @ x)) (u @ x @ v)) = (u @ x, v)"
  by simp

lemma splitext_candidate:
  assumes dot: "CHR ''.'' \<notin> set x" and sep: "CHR ''/'' \<notin> set x"
  shows "splitext (fst (splitext p) @ x @ snd (splitext p)) = (fst (splitext p) @ x, snd (splitext p))"
proof -
  let ?s = "rfind (CHR ''/'') p" and ?d = "rfind (CHR ''.'') p"
  let ?E = "\<exists>k. nat (?s + 1) \<le> k \<and> k < nat ?d \<and> take 1 (drop k p) \<noteq> ''.''"
  have dlen: "?d < int (length p)" using rfind_bounds by blast
  show ?thesis
  proof (cases "?s < ?d \<and> ?E")
    case False
    then have sp: "splitext p = (p, [])" by (subst splitext_eq) (rule if_not_P)
    have s': "rfind (CHR ''/'') (p @ x) = ?s" using sep by (simp add: rfind_append)
    have d': "rfind (CHR ''.'') (p @ x) = ?d" using dot by (simp add: rfind_append)
    have "\<not> (?s < ?d \<and> (\<exists>k. nat (?s + 1) \<le> k \<and> k < nat ?d \<and> take 1 (drop k (p @ x)) \<noteq> ''.''))"
    proof
      assume a: "?s < ?d \<and> (\<exists>k. nat (?s + 1) \<le> k \<and> k < nat ?d \<and> take 1 (drop k (p @ x)) \<noteq> ''.'')"
      then obtain k where k: "nat (?s + 1) \<le> k" "k < nat ?d" "take 1 (drop k (p @ x)) \<noteq> ''.''"
        by blast
      from k(2) dlen have "k < length p" by linarith
      with k(3) have "take 1 (drop k p) \<noteq> ''.''" by simp
      with k a False show False by blast
    qed
    then have "splitext (p @ x) = (p @ x, [])"
      by (subst splitext_eq) (simp only: s' d' if_False)
    with sp show ?thesis by simp
  next
    case True
    then obtain k where k: "nat (?s + 1) \<le> k" "k < nat ?d" "take 1 (drop k p) \<noteq> ''.''"
      by blast
    from True have sp: "splitext p = (take (nat ?d) p, drop (nat ?d) p)"
      by (subst splitext_eq) (rule if_P)
    let ?a = "take (nat ?d) p" and ?b = "drop (nat ?d) p"
    have sb: "- 1 \<le> ?s" using rfind_bounds by blast
    with True have d0: "0 \<le> ?d" by linarith
    have la: "length ?a = nat ?d" using dlen d0 by simp
    have pab: "p = ?a @ ?b" by simp
    have dot_b: "CHR ''.'' \<in> set ?b"
    proof (rule ccontr)
      assume "CHR ''.'' \<notin> set ?b"
      then have "?d = rfind (CHR ''.'') ?a" using rfind_append [of "CHR ''.''" ?a ?b] by simp
      moreover have "rfind (CHR ''.'') ?a < int (length ?a)" using rfind_bounds by blast
      ultimately show False using la d0 by linarith
    qed
    have db: "rfind (CHR ''.'') ?b = 0"
      using rfind_append [of "CHR ''.''" ?a ?b] dot_b la d0 by simp
    have sep_b: "CHR ''/'' \<notin> set ?b"
    proof
      assume "CHR ''/'' \<in> set ?b"
      then have "?s = int (length ?a) + rfind (CHR ''/'') ?b"
        using rfind_append [of "CHR ''/''" ?a ?b] by simp
      moreover have "0 \<le> rfind (CHR ''/'') ?b" using \<open>CHR ''/'' \<in> set ?b\<close> by (rule rfind_in)
      ultimately show False using True la d0 by linarith
    qed
    have sa: "rfind (CHR ''/'') ?a = ?s"
      using rfind_append [of "CHR ''/''" ?a ?b] sep_b by simp
    let ?q = "?a @ x @ ?b"
    have s': "rfind (CHR ''/'') ?q = ?s"
      using rfind_append [of "CHR ''/''" ?a "x @ ?b"] sep sep_b sa by simp
    have d': "rfind (CHR ''.'') ?q = int (length (?a @ x))"
      using rfind_append [of "CHR ''.''" "?a @ x" ?b] dot_b db by simp
    have klen: "k < length ?a" using k(2) la by simp
    have "take 1 (drop k ?q) = take 1 (drop k ?a)" using klen by simp
    also have "\<dots> = take 1 (drop k p)"
      using take1_drop_append [of k ?a ?b] klen by simp
    finally have kq: "take 1 (drop k ?q) \<noteq> ''.''" using k(3) by simp
    have lt: "?s < int (length (?a @ x))" using True la d0 by simp
    have kb: "nat (?s + 1) \<le> k \<and> k < length (?a @ x)"
      using k(1) klen length_append [of ?a x] by linarith
    have c1: "rfind (CHR ''/'') ?q < rfind (CHR ''.'') ?q"
      using lt by (simp only: s' d')
    have c2: "\<exists>k. nat (rfind (CHR ''/'') ?q + 1) \<le> k \<and> k < nat (rfind (CHR ''.'') ?q) \<and>
                take 1 (drop k ?q) \<noteq> ''.''"
      apply (simp only: s' d' nat_int)
      using kb kq by blast
    have "splitext ?q = (take (nat (rfind (CHR ''.'') ?q)) ?q, drop (nat (rfind (CHR ''.'') ?q)) ?q)"
      by (subst splitext_eq) (rule if_P, rule conjI, rule c1, rule c2)
    then have "splitext ?q = (take (length (?a @ x)) ?q, drop (length (?a @ x)) ?q)"
      by (simp only: d' nat_int)
    then have "splitext ?q = (?a @ x, ?b)" by (simp only: split_at_length)
    with sp show ?thesis by simp
  qed
qed

subsection \<open>Resolving a unique path\<close>

lemma random_choice_in: "seq \<noteq> [] \<Longrightarrow> random_choice seq r \<in> set seq"
  by (simp add: random_choice_def)

lemma alphabet_no_dot_sep:
  "CHR ''.'' \<notin> set (ascii_letters @ digits)" "CHR ''/'' \<notin> set (ascii_letters @ digits)"
  "ascii_letters @ digits \<noteq> []"
  by (simp_all add: ascii_letters_def digits_def)

lemma draw_suffix:
  "5 \<le> length rs \<Longrightarrow>
   length (map (random_choice (ascii_letters @ digits)) (take 5 rs)) = 5 \<and>
   set (map (random_choice (ascii_letters @ digits)) (take 5 rs)) \<subseteq> set (ascii_letters @ digits)"
  using random_choice_in [OF alphabet_no_dot_sep(3)] by auto

lemma os_path_exists_rng [simp]: "os_path_exists (w\<lparr>rng := rs\<rparr>) p = os_path_exists w p"
  by (simp add: os_path_exists_def)

lemma get_unique_path_loop_free:
  "\<not> os_path_exists w path \<Longrightarrow> get_unique_path_loop w filename extension path = Returns path w"
  by (subst get_unique_path_loop.simps) simp

lemma get_unique_path_loop_returns:
  "get_unique_path_loop w filename extension path = Returns p w' \<Longrightarrow>
   \<not> os_path_exists w p \<and> (\<exists>rs. w' = w\<lparr>rng := rs\<rparr>) \<and>
   (if os_path_exists w path
    then \<exists>suffix. length suffix = 5 \<and> set suffix \<subseteq> set (ascii_letters @ digits) \<and>
           p = filename @ ''_'' @ suffix @ extension
    else p = path \<and> w' = w)"
proof (induction w filename extension path rule: get_unique_path_loop.induct)
  case (1 w filename extension path)
  show ?case
  proof (cases "os_path_exists w path")
    case False
    with "1.prems" have "p = path \<and> w' = w" by (simp add: get_unique_path_loop_free)
    moreover have "w = w\<lparr>rng := rng w\<rparr>" by simp
    ultimately show ?thesis using False by metis
  next
    case True
    let ?suffix = "map (random_choice (ascii_letters @ digits)) (take 5 (rng w))"
    let ?w1 = "w\<lparr>rng := drop 5 (rng w)\<rparr>"
    let ?path1 = "filename @ ''_'' @ ?suffix @ extension"
    from True "1.prems" have len: "\<not> length (rng w) < 5"
      by (subst (asm) get_unique_path_loop.simps) (auto split: if_splits)
    with True "1.prems" have rec: "get_unique_path_loop ?w1 filename extension ?path1 = Returns p w'"
      by (subst (asm) get_unique_path_loop.simps) simp
    note ih = "1.IH" [OF True len rec]
    from len have suf: "length ?suffix = 5 \<and> set ?suffix \<subseteq> set (ascii_letters @ digits)"
      using draw_suffix [of "rng w"] by simp
    from ih have a: "\<not> os_path_exists w p" by simp
    from ih obtain rs where "w' = ?w1\<lparr>rng := rs\<rparr>" by blast
    then have "w' = w\<lparr>rng := rs\<rparr>" by simp
    then have b: "\<exists>rs. w' = w\<lparr>rng := rs\<rparr>" by blast
    have c: "\<exists>suffix. length suffix = 5 \<and> set suffix \<subseteq> set (ascii_letters @ digits) \<and>
           p = filename @ ''_'' @ suffix @ extension"
    proof (cases "os_path_exists ?w1 ?path1")
      case True
      with ih show ?thesis by simp
    next
      case False
      with ih have "p = ?path1" by simp
      with suf show ?thesis by blast
    qed
    from a b c True show ?thesis by simp
  qed
qed

lemma get_unique_path_loop_terminates:
  "5 * n + 5 \<le> length (rng w) \<Longrightarrow>
   \<not> os_path_exists w
       (filename @ ''_'' @
        map (random_choice (ascii_letters @ digits)) (take 5 (drop (5 * n) (rng w))) @ extension) \<Longrightarrow>
   \<exists>p w'. get_unique_path_loop w filename extension path = Returns p w'"
proof (induction n arbitrary: w path)
  case 0
  show ?case
  proof (cases "os_path_exists w path")
    case False
    then show ?thesis by (simp add: get_unique_path_loop_free)
  next
    case True
    with 0 show ?thesis
      by (subst get_unique_path_loop.simps) (simp add: get_unique_path_loop_free)
  qed
next
  case (Suc n)
  show ?case
  proof (cases "os_path_exists w path")
    case False
    then show ?thesis by (simp add: get_unique_path_loop_free)
  next
    case True
    let ?w1 = "w\<lparr>rng := drop 5 (rng w)\<rparr>"
    have l: "5 * n + 5 \<le> length (rng ?w1)" using Suc.prems(1) by simp
    have "drop (5 * n) (rng ?w1) = drop (5 * Suc n) (rng w)" by (simp add: add.commute)
    with Suc.prems(2) have f: "\<not> os_path_exists ?w1
       (filename @ ''_'' @
        map (random_choice (ascii_letters @ digits)) (take 5 (drop (5 * n) (rng ?w1))) @ extension)"
      by simp
    from Suc.IH [OF l f] obtain p w' where
      "get_unique_path_loop ?w1 filename extension
         (filename @ ''_'' @ map (random_choice (ascii_letters @ digits)) (take 5 (rng w)) @ extension)
       = Returns p w'" by blast
    with True Suc.prems(1) show ?thesis
      by (subst get_unique_path_loop.simps) simp
  qed
qed

text \<open>
  C3: a path at which nothing exists is returned unchanged, and no draw is used.  When
  the path is taken, a returned path is free in the file system of the call, which the
  resolver leaves as it was; it is the stem, an underscore, five characters of
  \<open>ascii_letters + digits\<close> and the extension, and \<open>splitext\<close> gives it that stem
  and the original extension, so its stem begins with the original stem.  The resolver
  does return as soon as one round of draws selects a free candidate.
\<close>

theorem get_unique_path_resolves:
  "(\<not> os_path_exists w path \<longrightarrow> get_unique_path w path = Returns path w) \<and>
   (os_path_exists w path \<longrightarrow>
      (\<forall>p w'. get_unique_path w path = Returns p w' \<longrightarrow>
         \<not> os_path_exists w p \<and> files w' = files w \<and>
         (\<exists>suffix. length suffix = 5 \<and> set suffix \<subseteq> set (ascii_letters @ digits) \<and>
            p = fst (splitext path) @ ''_'' @ suffix @ snd (splitext path) \<and>
            splitext p = (fst (splitext path) @ ''_'' @ suffix, snd (splitext path))) \<and>
         prefix (fst (splitext path)) (fst (splitext p))) \<and>
      (\<forall>n. 5 * n + 5 \<le> length (rng w) \<and>
           \<not> os_path_exists w
               (fst (splitext path) @ ''_'' @
                map (random_choice (ascii_letters @ digits)) (take 5 (drop (5 * n) (rng w))) @
                snd (splitext path)) \<longrightarrow>
           (\<exists>p w'. get_unique_path w path = Returns p w')))"
proof -
  let ?stem = "fst (splitext path)" and ?ext = "snd (splitext path)"
  have gup: "get_unique_path w path = get_unique_path_loop w ?stem ?ext path"
    by (simp add: get_unique_path_def case_prod_beta)
  have free: "\<not> os_path_exists w path \<Longrightarrow> get_unique_path w path = Returns path w"
    by (simp add: gup get_unique_path_loop_free)
  have taken: "\<not> os_path_exists w p \<and> files w' = files w \<and>
         (\<exists>suffix. length suffix = 5 \<and> set suffix \<subseteq> set (ascii_letters @ digits) \<and>
            p = ?stem @ ''_'' @ suffix @ ?ext \<and>
            splitext p = (?stem @ ''_'' @ suffix, ?ext)) \<and>
         prefix ?stem (fst (splitext p))"
    if ex: "os_path_exists w path" and ret: "get_unique_path w path = Returns p w'" for p w'
  proof -
    from ret have r: "get_unique_path_loop w ?stem ?ext path = Returns p w'" by (simp add: gup)
    note l = get_unique_path_loop_returns [OF r]
    from l ex obtain suffix where s: "length suffix = 5" "set suffix \<subseteq> set (ascii_letters @ digits)"
      "p = ?stem @ ''_'' @ suffix @ ?ext" by auto
    from s(2) alphabet_no_dot_sep have "CHR ''.'' \<notin> set (''_'' @ suffix)" "CHR ''/'' \<notin> set (''_'' @ suffix)"
      by auto
    from splitext_candidate [OF this, of path] s(3)
    have sp: "splitext p = (?stem @ ''_'' @ suffix, ?ext)" by simp
    from l obtain rs where "w' = w\<lparr>rng := rs\<rparr>" by blast
    then have fl: "files w' = files w" by simp
    from l s sp fl show ?thesis by auto
  qed
  have halts: "\<exists>p w'. get_unique_path w path = Returns p w'"
    if "5 * n + 5 \<le> length (rng w)"
      "\<not> os_path_exists w (?stem @ ''_'' @
          map (random_choice (ascii_letters @ digits)) (take 5 (drop (5 * n) (rng w))) @ ?ext)" for n
    using get_unique_path_loop_terminates [OF that] by (simp add: gup)
  from free taken halts show ?thesis by blast
qed

lemma splitext_report: "splitext ''attachments/report.docx'' = (''attachments/report'', ''.docx'')"
  by code_simp

lemma splitext_report_fghij: "splitext ''attachments/report_fghij.docx'' = (''attachments/report_fghij'', ''.docx'')"
  by code_simp

lemma splitext_new: "splitext ''attachments/new.txt'' = (''attachments/new'', ''.txt'')"
  by code_simp

theorem get_unique_path_resolves_witness:
  "os_path_exists ex_world ''attachments/report.docx'' \<and>
   5 * 1 + 5 \<le> length (rng ex_world) \<and>
   get_unique_path ex_world ''attachments/report.docx'' =
     Returns ''attachments/report_fghij.docx'' (ex_world\<lparr>rng := [10, 11, 12, 13, 14]\<rparr>) \<and>
   \<not> os_path_exists ex_world ''attachments/report_fghij.docx'' \<and>
   splitext ''attachments/report_fghij.docx'' = (''attachments/report_fghij'', ''.docx'') \<and>
   \<not> os_path_exists ex_world ''attachments/new.txt'' \<and>
   get_unique_path ex_world ''attachments/new.txt'' = Returns ''attachments/new.txt'' ex_world"
  using get_unique_path_resolves [of ex_world "''attachments/report.docx''"]
    get_unique_path_resolves [of ex_world "''attachments/new.txt''"]
  by (simp add: get_unique_path_def splitext_report splitext_report_fghij splitext_new get_unique_path_loop.simps os_path_exists_def
      ex_world_def random_choice_def ascii_letters_def digits_def)

subsection \<open>Saving one attachment\<close>

lemma get_unique_path_loop_final:
  "final_world (get_unique_path_loop w filename extension path) = Some w' \<Longrightarrow>
   \<exists>p. get_unique_path_loop w filename extension path = Returns p w'"
proof (induction w filename extension path rule: get_unique_path_loop.induct)
  case (1 w filename extension path)
  show ?case
  proof (cases "os_path_exists w path")
    case False
    with "1.prems" show ?thesis by (simp add: get_unique_path_loop_free)
  next
    case True
    from True "1.prems" have len: "\<not> length (rng w) < 5"
      by (subst (asm) get_unique_path_loop.simps) (auto split: if_splits)
    from True len have unfold: "get_unique_path_loop w filename extension path =
       get_unique_path_loop (w\<lparr>rng := drop 5 (rng w)\<rparr>) filename extension
         (filename @ ''_'' @ map (random_choice (ascii_letters @ digits)) (take 5 (rng w)) @ extension)"
      by (subst get_unique_path_loop.simps) simp
    from "1.IH" [OF True len] "1.prems" show ?thesis by (simp only: unfold)
  qed
qed

lemma get_unique_path_final:
  "final_world (get_unique_path w path) = Some w' \<Longrightarrow>
   \<exists>p rs. get_unique_path w path = Returns p w' \<and> \<not> os_path_exists w p \<and>
       w' = w\<lparr>rng := rs\<rparr>"
proof -
  assume a: "final_world (get_unique_path w path) = Some w'"
  have gup: "get_unique_path w path =
      get_unique_path_loop w (fst (splitext path)) (snd (splitext path)) path"
    by (simp add: get_unique_path_def case_prod_beta)
  from a have "final_world (get_unique_path_loop w (fst (splitext path)) (snd (splitext path)) path)
      = Some w'"
    by (simp only: gup)
  from get_unique_path_loop_final [OF this] obtain p where
    p: "get_unique_path_loop w (fst (splitext path)) (snd (splitext path)) path = Returns p w'"
    by blast
  from get_unique_path_loop_returns [OF p] p show ?thesis by (simp only: gup) blast
qed

lemma open_write_world:
  "open_write w p c = Inr w1 \<Longrightarrow> w1 = w\<lparr>files := (files w)(p \<mapsto> File c)\<rparr>"
  by (auto simp: open_write_def split: option.splits node.splits)

lemma write_payload_returns:
  "write_payload w path a = Returns u w' \<Longrightarrow>
   (if get_content_type a = ''message/rfc822''
    then \<exists>data. get_payload_0 a = Inr data \<and> snd (flatten data) = None \<and>
           w' = w\<lparr>files := (files w)(path \<mapsto> File (Text (fst (flatten data))))\<rparr>
    else \<exists>b. get_payload_decode a = Some b \<and>
           w' = w\<lparr>files := (files w)(path \<mapsto> File (Binary b))\<rparr>)"
  by (auto simp: write_payload_def write_file_def Let_def dest!: open_write_world
      split: if_splits sum.splits option.splits)

lemma write_payload_final:
  "final_world (write_payload w path a) = Some w' \<Longrightarrow>
   w' = w \<or> (\<exists>c. w' = w\<lparr>files := (files w)(path \<mapsto> File c)\<rparr>)"
  by (auto simp: write_payload_def write_file_def Let_def dest!: open_write_world
      split: if_splits sum.splits option.splits)

lemma write_payload_overwrites:
  assumes "files w path \<noteq> Some Dir" and "os_fault w (files w) OpenWrite path = None"
  shows "get_content_type a \<noteq> ''message/rfc822'' \<Longrightarrow> get_payload_decode a = Some b \<Longrightarrow>
      write_payload w path a =
        Returns () (w\<lparr>files := (files w)(path \<mapsto> File (Binary b))\<rparr>)"
    and "get_content_type a = ''message/rfc822'' \<Longrightarrow> get_payload_0 a = Inr data \<Longrightarrow>
      snd (flatten data) = None \<Longrightarrow>
      write_payload w path a =
        Returns () (w\<lparr>files := (files w)(path \<mapsto> File (Text (fst (flatten data))))\<rparr>)"
  using assms
  by (auto simp: write_payload_def open_write_def write_file_def
      split: option.splits node.splits)

lemma destination_no_keep:
  "sanitize_filename (get_filename a) = Inr name \<Longrightarrow>
   destination w location a False = Returns (join location name) w"
  by (simp add: destination_def)

lemma destination_keep_final:
  assumes fin: "final_world (destination w location a True) = Some w1"
  shows "(destination w location a True = Raises (TypeError ''expected string or bytes-like object'') w1
      \<and> w1 = w \<and> get_filename a = None) \<or>
   (\<exists>p rs. destination w location a True = Returns p w1 \<and> \<not> os_path_exists w p \<and>
        w1 = w\<lparr>rng := rs\<rparr>)"
proof (cases "get_filename a")
  case None
  with fin show ?thesis by (simp add: destination_def sanitize_filename_def)
next
  case (Some s)
  with fin have "final_world (get_unique_path w (join location (re_sub_class class_pattern ''_'' s)))
      = Some w1"
    by (simp add: destination_def sanitize_filename_def)
  from get_unique_path_final [OF this] Some show ?thesis
    by (simp add: destination_def sanitize_filename_def)
qed

lemma save_attachment_final:
  "final_world (save_attachment w location a k) = Some w' \<Longrightarrow>
   \<exists>w1. final_world (destination w location a k) = Some w1 \<and>
        (w' = w1 \<or> (\<exists>p. destination w location a k = Returns p w1 \<and>
                      final_world (write_payload w1 p a) = Some w'))"
  by (auto simp: save_attachment_def and_then_def split: outcome.splits)

text \<open>
  C4: with the keep flag the destination is what the resolver returns for
  \<open>join location name\<close>, and whether the call returns or raises, every entry that
  existed before it is still there unchanged.
  Without the flag the destination is \<open>join location name\<close> as it stands, no draw
  is made, and a call that returns has put the attachment's own content (the generated
  text or the decoded payload) at that path in place of whatever was there, changing
  nothing else.  A file that exists at the path does not stop the call: unless the
  path is a directory or the operating system refuses to open it, an attachment whose
  payload is there is written and the call returns, so the old content is lost without
  an error.
\<close>

theorem save_attachment_collisions:
  "(final_world (save_attachment w location a True) = Some w' \<longrightarrow>
      (\<forall>p. os_path_exists w p \<longrightarrow> files w' p = files w p)) \<and>
   (sanitize_filename (get_filename a) = Inr name \<longrightarrow>
      destination w location a True = get_unique_path w (join location name) \<and>
      destination w location a False = Returns (join location name) w \<and>
      save_attachment w location a False = write_payload w (join location name) a \<and>
      (save_attachment w location a False = Returns u w' \<longrightarrow>
         (\<exists>c. w' = w\<lparr>files := (files w)(join location name \<mapsto> File c)\<rparr>)) \<and>
      (save_attachment w location a False = Returns u w' \<longrightarrow>
         (if get_content_type a = ''message/rfc822''
          then \<exists>data. get_payload_0 a = Inr data \<and>
                 w' = w\<lparr>files :=
                        (files w)(join location name \<mapsto> File (Text (fst (flatten data))))\<rparr>
          else \<exists>b. get_payload_decode a = Some b \<and>
                 w' = w\<lparr>files := (files w)(join location name \<mapsto> File (Binary b))\<rparr>)) \<and>
      (files w (join location name) \<noteq> Some Dir \<and>
       os_fault w (files w) OpenWrite (join location name) = None \<longrightarrow>
         (\<forall>b. get_content_type a \<noteq> ''message/rfc822'' \<and> get_payload_decode a = Some b \<longrightarrow>
              save_attachment w location a False =
                Returns () (w\<lparr>files := (files w)(join location name \<mapsto> File (Binary b))\<rparr>)) \<and>
         (\<forall>data. get_content_type a = ''message/rfc822'' \<and> get_payload_0 a = Inr data \<and>
                 snd (flatten data) = None \<longrightarrow>
              save_attachment w location a False =
                Returns () (w\<lparr>files :=
                  (files w)(join location name \<mapsto> File (Text (fst (flatten data))))\<rparr>))))"
proof -
  have kept: "files w' p = files w p"
    if fin: "final_world (save_attachment w location a True) = Some w'"
      and ex: "os_path_exists w p" for p
  proof -
    from save_attachment_final [OF fin] obtain w1 where
      w1: "final_world (destination w location a True) = Some w1"
      and alt: "w' = w1 \<or> (\<exists>q. destination w location a True = Returns q w1 \<and>
                      final_world (write_payload w1 q a) = Some w')" by blast
    from destination_keep_final [OF w1] have fw1: "files w1 = files w"
      by auto
    from alt show "files w' p = files w p"
    proof
      assume "w' = w1"
      with fw1 show ?thesis by simp
    next
      assume "\<exists>q. destination w location a True = Returns q w1 \<and>
                      final_world (write_payload w1 q a) = Some w'"
      then obtain q where q: "destination w location a True = Returns q w1"
        and wp: "final_world (write_payload w1 q a) = Some w'" by blast
      from destination_keep_final [OF w1] q have "\<not> os_path_exists w q" by auto
      with ex have "p \<noteq> q" by blast
      with write_payload_final [OF wp] fw1 show ?thesis by auto
    qed
  qed
  have as_is: "destination w location a True = get_unique_path w (join location name) \<and>
      destination w location a False = Returns (join location name) w \<and>
      save_attachment w location a False = write_payload w (join location name) a \<and>
      (save_attachment w location a False = Returns u w' \<longrightarrow>
         (\<exists>c. w' = w\<lparr>files := (files w)(join location name \<mapsto> File c)\<rparr>)) \<and>
      (save_attachment w location a False = Returns u w' \<longrightarrow>
         (if get_content_type a = ''message/rfc822''
          then \<exists>data. get_payload_0 a = Inr data \<and>
                 w' = w\<lparr>files :=
                        (files w)(join location name \<mapsto> File (Text (fst (flatten data))))\<rparr>
          else \<exists>b. get_payload_decode a = Some b \<and>
                 w' = w\<lparr>files := (files w)(join location name \<mapsto> File (Binary b))\<rparr>)) \<and>
      (files w (join location name) \<noteq> Some Dir \<and>
       os_fault w (files w) OpenWrite (join location name) = None \<longrightarrow>
         (\<forall>b. get_content_type a \<noteq> ''message/rfc822'' \<and> get_payload_decode a = Some b \<longrightarrow>
              save_attachment w location a False =
                Returns () (w\<lparr>files := (files w)(join location name \<mapsto> File (Binary b))\<rparr>)) \<and>
         (\<forall>data. get_content_type a = ''message/rfc822'' \<and> get_payload_0 a = Inr data \<and>
                 snd (flatten data) = None \<longrightarrow>
              save_attachment w location a False =
                Returns () (w\<lparr>files :=
                  (files w)(join location name \<mapsto> File (Text (fst (flatten data))))\<rparr>)))"
    if s: "sanitize_filename (get_filename a) = Inr name"
  proof -
    from s have d1: "destination w location a True = get_unique_path w (join location name)"
      by (simp add: destination_def)
    from s have d2: "destination w location a False = Returns (join location name) w"
      by (rule destination_no_keep)
    from s have eq: "save_attachment w location a False = write_payload w (join location name) a"
      by (simp add: save_attachment_def destination_no_keep and_then_def)
    have r2: "if get_content_type a = ''message/rfc822''
          then \<exists>data. get_payload_0 a = Inr data \<and>
                 w' = w\<lparr>files :=
                        (files w)(join location name \<mapsto> File (Text (fst (flatten data))))\<rparr>
          else \<exists>b. get_payload_decode a = Some b \<and>
                 w' = w\<lparr>files := (files w)(join location name \<mapsto> File (Binary b))\<rparr>"
      if "save_attachment w location a False = Returns u w'"
    proof -
      from that eq have wp: "write_payload w (join location name) a = Returns u w'" by simp
      from write_payload_returns [OF wp] show ?thesis by (auto split: if_splits)
    qed
    have r1: "\<exists>c. w' = w\<lparr>files := (files w)(join location name \<mapsto> File c)\<rparr>"
      if "save_attachment w location a False = Returns u w'"
      using r2 [OF that] by (auto split: if_splits)
    have o1: "save_attachment w location a False =
                Returns () (w\<lparr>files := (files w)(join location name \<mapsto> File (Binary b))\<rparr>)"
      if "files w (join location name) \<noteq> Some Dir"
        "os_fault w (files w) OpenWrite (join location name) = None"
        "get_content_type a \<noteq> ''message/rfc822''" "get_payload_decode a = Some b" for b
      using write_payload_overwrites(1) [OF that] by (simp add: eq)
    have o2: "save_attachment w location a False =
                Returns () (w\<lparr>files :=
                  (files w)(join location name \<mapsto> File (Text (fst (flatten data))))\<rparr>)"
      if "files w (join location name) \<noteq> Some Dir"
        "os_fault w (files w) OpenWrite (join location name) = None"
        "get_content_type a = ''message/rfc822''" "get_payload_0 a = Inr data"
        "snd (flatten data) = None" for data
      using write_payload_overwrites(2) [OF that] by (simp add: eq)
    show ?thesis
    proof (intro conjI impI allI)
      show "destination w location a True = get_unique_path w (join location name)" by (rule d1)
      show "destination w location a False = Returns (join location name) w" by (rule d2)
      show "save_attachment w location a False = write_payload w (join location name) a"
        by (rule eq)
    next
      assume "save_attachment w location a False = Returns u w'"
      then show "\<exists>c. w' = w\<lparr>files := (files w)(join location name \<mapsto> File c)\<rparr>" by (rule r1)
    next
      assume "save_attachment w location a False = Returns u w'"
      then show "if get_content_type a = ''message/rfc822''
          then \<exists>data. get_payload_0 a = Inr data \<and>
                 w' = w\<lparr>files :=
                        (files w)(join location name \<mapsto> File (Text (fst (flatten data))))\<rparr>
          else \<exists>b. get_payload_decode a = Some b \<and>
                 w' = w\<lparr>files := (files w)(join location name \<mapsto> File (Binary b))\<rparr>"
        by (rule r2)
    next
      fix b
      assume "files w (join location name) \<noteq> Some Dir \<and>
          os_fault w (files w) OpenWrite (join location name) = None"
        and "get_content_type a \<noteq> ''message/rfc822'' \<and> get_payload_decode a = Some b"
      then show "save_attachment w location a False =
                Returns () (w\<lparr>files := (files w)(join location name \<mapsto> File (Binary b))\<rparr>)"
        using o1 [of b] by blast
    next
      fix data
      assume "files w (join location name) \<noteq> Some Dir \<and>
          os_fault w (files w) OpenWrite (join location name) = None"
        and "get_content_type a = ''message/rfc822'' \<and> get_payload_0 a = Inr data \<and>
                 snd (flatten data) = None"
      then show "save_attachment w location a False =
                Returns () (w\<lparr>files :=
                  (files w)(join location name \<mapsto> File (Text (fst (flatten data))))\<rparr>)"
        using o2 [of data] by blast
    qed
  qed
  show ?thesis
  proof (rule conjI)
    show "final_world (save_attachment w location a True) = Some w' \<longrightarrow>
      (\<forall>p. os_path_exists w p \<longrightarrow> files w' p = files w p)"
      using kept by blast
  next
    show "sanitize_filename (get_filename a) = Inr name \<longrightarrow>
      destination w location a True = get_unique_path w (join location name) \<and>
      destination w location a False = Returns (join location name) w \<and>
      save_attachment w location a False = write_payload w (join location name) a \<and>
      (save_attachment w location a False = Returns u w' \<longrightarrow>
         (\<exists>c. w' = w\<lparr>files := (files w)(join location name \<mapsto> File c)\<rparr>)) \<and>
      (save_attachment w location a False = Returns u w' \<longrightarrow>
         (if get_content_type a = ''message/rfc822''
          then \<exists>data. get_payload_0 a = Inr data \<and>
                 w' = w\<lparr>files :=
                        (files w)(join location name \<mapsto> File (Text (fst (flatten data))))\<rparr>
          else \<exists>b. get_payload_decode a = Some b \<and>
                 w' = w\<lparr>files := (files w)(join location name \<mapsto> File (Binary b))\<rparr>)) \<and>
      (files w (join location name) \<noteq> Some Dir \<and>
       os_fault w (files w) OpenWrite (join location name) = None \<longrightarrow>
         (\<forall>b. get_content_type a \<noteq> ''message/rfc822'' \<and> get_payload_decode a = Some b \<longrightarrow>
              save_attachment w location a False =
                Returns () (w\<lparr>files := (files w)(join location name \<mapsto> File (Binary b))\<rparr>)) \<and>
         (\<forall>data. get_content_type a = ''message/rfc822'' \<and> get_payload_0 a = Inr data \<and>
                 snd (flatten data) = None \<longrightarrow>
              save_attachment w location a False =
                Returns () (w\<lparr>files :=
                  (files w)(join location name \<mapsto> File (Text (fst (flatten data))))\<rparr>)))"
      using as_is by (rule impI)
  qed
qed

lemma sanitize_examples:
  "sanitize_filename (Some ''report.docx'') = Inr ''report.docx''"
  "sanitize_filename (Some ''invoice.pdf'') = Inr ''invoice.pdf''"
  "sanitize_filename (Some ''logo.png'') = Inr ''logo.png''"
  "sanitize_filename (Some ''fwd.eml'') = Inr ''fwd.eml''"
  "sanitize_filename (Some ''old'') = Inr ''old''"
  by (simp_all add: sanitize_filename_map reserved_def)

theorem save_attachment_collisions_witness:
  "final_world (save_attachment ex_world ''attachments'' ex_docx True) =
     Some (ex_world\<lparr>rng := [10, 11, 12, 13, 14],
             files := (files ex_world)(''attachments/report_fghij.docx'' \<mapsto> File (Binary ''new''))\<rparr>) \<and>
   os_path_exists ex_world ''attachments/report.docx'' \<and>
   sanitize_filename (get_filename ex_docx) = Inr ''report.docx'' \<and>
   files ex_world ''attachments/report.docx'' = Some (File (Binary ''old'')) \<and>
   join ''attachments'' ''report.docx'' = ''attachments/report.docx'' \<and>
   os_fault ex_world (files ex_world) OpenWrite ''attachments/report.docx'' = None \<and>
   get_content_type ex_docx = ''application/msword'' \<and>
   get_payload_decode ex_docx = Some ''new'' \<and>
   save_attachment ex_world ''attachments'' ex_docx False =
     Returns () (ex_world\<lparr>files :=
       (files ex_world)(''attachments/report.docx'' \<mapsto> File (Binary ''new''))\<rparr>)"
  using save_attachment_collisions [of ex_world "''attachments''" ex_docx _ "''report.docx''" "()"]
  by (simp add: save_attachment_def destination_def and_then_def write_payload_def
      open_write_def write_file_def join_def ex_docx_def part_def sanitize_examples
      get_unique_path_def splitext_report get_unique_path_loop.simps os_path_exists_def
      ex_world_def random_choice_def ascii_letters_def digits_def)

text \<open>
  C5: when \<open>save_attachment\<close> returns, the file at the destination holds, for an
  attachment of type \<open>message/rfc822\<close>, the text the generator produces for the first
  sub-part \<open>get_payload(0)\<close>, written in text mode; for any other type it holds the
  decoded payload, written in binary mode.
\<close>

theorem save_attachment_writes_payload:
  "save_attachment w location a k = Returns u w' \<Longrightarrow>
   \<exists>path w1. destination w location a k = Returns path w1 \<and>
     (if get_content_type a = ''message/rfc822''
      then \<exists>data. get_payload_0 a = Inr data \<and>
             w' = w1\<lparr>files := (files w1)(path \<mapsto> File (Text (fst (flatten data))))\<rparr>
      else \<exists>b. get_payload_decode a = Some b \<and>
             w' = w1\<lparr>files := (files w1)(path \<mapsto> File (Binary b))\<rparr>)"
proof -
  assume r: "save_attachment w location a k = Returns u w'"
  then obtain path w1 where d: "destination w location a k = Returns path w1"
    and wp: "write_payload w1 path a = Returns u w'"
    by (auto simp: save_attachment_def and_then_def split: outcome.splits)
  from write_payload_returns [OF wp] d show ?thesis
    by (cases "get_content_type a = ''message/rfc822''") auto
qed

theorem save_attachment_writes_payload_witness:
  "save_attachment ex_world ''attachments'' ex_forward False =
     Returns () (ex_world\<lparr>files :=
       (files ex_world)(''attachments/fwd.eml'' \<mapsto> File (Text ''hello''))\<rparr>) \<and>
   get_content_type ex_forward = ''message/rfc822'' \<and>
   get_payload_0 ex_forward = Inr ex_body \<and> fst (flatten ex_body) = ''hello'' \<and>
   save_attachment ex_world ''attachments'' ex_pdf False =
     Returns () (ex_world\<lparr>files :=
       (files ex_world)(''attachments/invoice.pdf'' \<mapsto> File (Binary ''%PDF-1.4''))\<rparr>) \<and>
   get_content_type ex_pdf = ''application/pdf'' \<and>
   get_payload_decode ex_pdf = Some ''%PDF-1.4''"
  using save_attachment_writes_payload [of ex_world "''attachments''" ex_forward False "()"]
    save_attachment_writes_payload [of ex_world "''attachments''" ex_pdf False "()"]
  by (simp add: save_attachment_def destination_def and_then_def write_payload_def
      open_write_def write_file_def join_def ex_forward_def ex_body_def ex_pdf_def part_def
      sanitize_examples ex_world_def)

subsection \<open>What an operation leaves unchanged\<close>

lemma and_then_final:
  "final_world (and_then m f) = Some w' \<Longrightarrow>
   (\<exists>e. m = Raises e w') \<or> (\<exists>x w1. m = Returns x w1 \<and> final_world (f x w1) = Some w')"
  by (cases m) (simp_all add: and_then_def)

lemma preserves_refl: "preserves w w"
  by (simp add: preserves_def)

lemma preserves_trans: "preserves w w1 \<Longrightarrow> preserves w1 w2 \<Longrightarrow> preserves w w2"
  by (auto simp: preserves_def os_path_exists_def)

lemma preserves_same_files: "files w' = files w \<Longrightarrow> preserves w w'"
  by (simp add: preserves_def)

lemma within_same_files: "files w' = files w \<Longrightarrow> within location w w'"
  by (simp add: within_def)

lemma within_trans: "within l w w1 \<Longrightarrow> within l w1 w2 \<Longrightarrow> within l w w2"
  unfolding within_def by metis

lemma preserves_exists: "preserves w w' \<Longrightarrow> os_path_exists w p \<Longrightarrow> os_path_exists w' p"
  by (simp add: preserves_def os_path_exists_def)

lemma rstrip_sep_prefix: "prefix (rstrip_sep s) s"
proof -
  have "rev s = takeWhile (\<lambda>c. c = CHR ''/'') (rev s) @ dropWhile (\<lambda>c. c = CHR ''/'') (rev s)"
    by simp
  then have "s = rev (dropWhile (\<lambda>c. c = CHR ''/'') (rev s)) @ rev (takeWhile (\<lambda>c. c = CHR ''/'') (rev s))"
    by (metis rev_append rev_rev_ident)
  then show ?thesis unfolding rstrip_sep_def by (metis prefixI)
qed

lemma split_fst_prefix: "prefix (fst (split p)) p"
proof -
  have t: "prefix (take n p) p" for n by (rule take_is_prefix)
  have "prefix (rstrip_sep (take n p)) p" for n
    using rstrip_sep_prefix [of "take n p"] t [of n] by (rule prefix_order.trans)
  with t show ?thesis by (simp add: split_def Let_def)
qed

lemma makedirs_split_prefix: "prefix (fst (makedirs_split name)) name"
proof (cases "snd (split name) = []")
  case True
  then have "fst (makedirs_split name) = fst (split (fst (split name)))"
    by (simp add: makedirs_split_def case_prod_beta)
  then show ?thesis
    using split_fst_prefix [of "fst (split name)"] split_fst_prefix [of name]
    by (metis prefix_order.trans)
next
  case False
  then have "fst (makedirs_split name) = fst (split name)"
    by (simp add: makedirs_split_def case_prod_beta)
  then show ?thesis using split_fst_prefix [of name] by simp
qed

lemma mkdir_exist_ok_final:
  "final_world (mkdir_exist_ok w name) = Some w' \<Longrightarrow>
   w' = w \<or> (\<not> os_path_exists w name \<and> w' = w\<lparr>files := (files w)(name \<mapsto> Dir)\<rparr>)"
  by (auto simp: mkdir_exist_ok_def mkdir_def split: option.splits if_splits sum.splits)

lemma mkdir_exist_ok_frame:
  assumes "final_world (mkdir_exist_ok w name) = Some w'"
  shows "preserves w w' \<and> (\<forall>p. files w' p \<noteq> files w p \<longrightarrow> p = name) \<and>
     (\<exists>fs. w' = w\<lparr>files := fs\<rparr>)"
proof -
  from mkdir_exist_ok_final [OF assms] show ?thesis
  proof
    assume "w' = w"
    moreover have "w = w\<lparr>files := files w\<rparr>" by simp
    ultimately show ?thesis by (metis preserves_refl)
  next
    assume a: "\<not> os_path_exists w name \<and> w' = w\<lparr>files := (files w)(name \<mapsto> Dir)\<rparr>"
    then have "preserves w w'" by (auto simp: preserves_def)
    moreover from a have "\<forall>p. files w' p \<noteq> files w p \<longrightarrow> p = name" by auto
    ultimately show ?thesis using a by blast
  qed
qed

lemma makedirs_final:
  assumes "final_world (makedirs w name) = Some w'"
  shows "if fst (makedirs_split name) \<noteq> [] \<and> snd (makedirs_split name) \<noteq> [] \<and>
            \<not> os_path_exists w (fst (makedirs_split name))
         then \<exists>w1. final_world (makedirs w (fst (makedirs_split name))) = Some w1 \<and>
                (w' = w1 \<or> final_world (mkdir_exist_ok w1 name) = Some w')
         else final_world (mkdir_exist_ok w name) = Some w'"
  using assms
  by (subst (asm) makedirs.simps)
     (auto simp: Let_def split: if_splits outcome.splits error.splits)

lemma makedirs_frame:
  "final_world (makedirs w name) = Some w' \<Longrightarrow>
   preserves w w' \<and> (\<forall>p. files w' p \<noteq> files w p \<longrightarrow> prefix p name) \<and>
   (\<exists>fs. w' = w\<lparr>files := fs\<rparr>)"
proof (induction w name arbitrary: w' rule: makedirs.induct)
  case (1 w name)
  let ?head = "fst (makedirs_split name)" and ?tail = "snd (makedirs_split name)"
  have last_step: "preserves v v' \<and> (\<forall>p. files v' p \<noteq> files v p \<longrightarrow> prefix p name) \<and>
      (\<exists>fs. v' = v\<lparr>files := fs\<rparr>)"
    if "final_world (mkdir_exist_ok v name) = Some v'" for v v'
    using mkdir_exist_ok_frame [OF that] by auto
  show ?case
  proof (cases "?head \<noteq> [] \<and> ?tail \<noteq> [] \<and> \<not> os_path_exists w ?head")
    case False
    with makedirs_final [OF "1.prems"] have "final_world (mkdir_exist_ok w name) = Some w'"
      by (simp split: if_splits)
    then show ?thesis by (rule last_step)
  next
    case True
    with makedirs_final [OF "1.prems"] obtain w1 where
      h: "final_world (makedirs w ?head) = Some w1"
      and alt: "w' = w1 \<or> final_world (mkdir_exist_ok w1 name) = Some w'"
      by (auto split: if_splits)
    from "1.IH" [OF refl refl True h]
    have ih: "preserves w w1" "\<forall>p. files w1 p \<noteq> files w p \<longrightarrow> prefix p ?head"
      "\<exists>fs. w1 = w\<lparr>files := fs\<rparr>" by blast+
    from ih(2) makedirs_split_prefix [of name]
    have ih2: "\<forall>p. files w1 p \<noteq> files w p \<longrightarrow> prefix p name"
      by (meson prefix_order.trans)
    from alt show ?thesis
    proof
      assume "w' = w1"
      with ih ih2 show ?thesis by blast
    next
      assume "final_world (mkdir_exist_ok w1 name) = Some w'"
      from last_step [OF this]
      have l: "preserves w1 w'" "\<forall>p. files w' p \<noteq> files w1 p \<longrightarrow> prefix p name"
        "\<exists>fs. w' = w1\<lparr>files := fs\<rparr>" by blast+
      from ih(1) l(1) have "preserves w w'" by (rule preserves_trans)
      moreover from ih2 l(2) have "\<forall>p. files w' p \<noteq> files w p \<longrightarrow> prefix p name" by metis
      moreover from ih(3) l(3) have "\<exists>fs. w' = w\<lparr>files := fs\<rparr>" by auto
      ultimately show ?thesis by blast
    qed
  qed
qed

lemma sanitized_no_sep:
  assumes "sanitize_filename fn = Inr name"
  shows "CHR ''/'' \<notin> set name"
proof (cases fn)
  case None
  with assms show ?thesis by (simp add: sanitize_filename_def)
next
  case (Some s)
  with assms have "name = map (\<lambda>c. if c \<in> reserved then CHR ''_'' else c) s"
    by (simp add: sanitize_filename_map)
  then show ?thesis by (auto simp: reserved_def)
qed

lemma join_cases:
  assumes "CHR ''/'' \<notin> set n"
  shows "join location n =
     (if location = [] \<or> last location = CHR ''/'' then location else location @ ''/'') @ n"
  using assms by (cases n) (auto simp: join_def)

lemma rfind_last: "rfind c (s @ [c]) = int (length s)"
  by (simp add: rfind_append)

lemma rfind_after_sep:
  assumes "L = [] \<or> last L = CHR ''/''" and "CHR ''/'' \<notin> set name"
  shows "int (length L) - 1 \<le> rfind (CHR ''/'') (L @ name)"
proof (cases "L = []")
  case True
  then show ?thesis using rfind_bounds [of "CHR ''/''" name] by simp
next
  case False
  with assms(1) have "L = butlast L @ [CHR ''/'']"
    by (metis append_butlast_last_id)
  then have "rfind (CHR ''/'') L = int (length (butlast L))"
    using rfind_last [of "CHR ''/''" "butlast L"] by simp
  moreover have "rfind (CHR ''/'') (L @ name) = rfind (CHR ''/'') L"
    using assms(2) by (simp add: rfind_append)
  ultimately show ?thesis using False by simp
qed

lemma splitext_stem_length:
  assumes "L = [] \<or> last L = CHR ''/''" and "CHR ''/'' \<notin> set name"
  shows "length L \<le> length (fst (splitext (L @ name)))"
proof (cases "snd (splitext (L @ name)) = []")
  case True
  with splitext_append [of "L @ name"] have "fst (splitext (L @ name)) = L @ name" by simp
  then show ?thesis by simp
next
  case False
  let ?p = "L @ name"
  from False have c: "rfind (CHR ''/'') ?p < rfind (CHR ''.'') ?p"
    and f: "fst (splitext ?p) = take (nat (rfind (CHR ''.'') ?p)) ?p"
    by (auto simp: splitext_eq split: if_splits)
  have "rfind (CHR ''.'') ?p < int (length ?p)" using rfind_bounds by blast
  with rfind_after_sep [OF assms] c f show ?thesis by simp
qed

lemma append_split_left:
  assumes "xs @ ys = us @ vs" and "length us \<le> length xs"
  shows "\<exists>n. xs = us @ n \<and> vs = n @ ys"
proof -
  from assms(1) have "take (length us) (xs @ ys) = us" by simp
  with assms(2) have t: "take (length us) xs = us" by simp
  from assms(1) have "drop (length us) (xs @ ys) = vs" by simp
  with assms(2) have d: "drop (length us) xs @ ys = vs" by simp
  from t have "xs = us @ drop (length us) xs" by (metis append_take_drop_id)
  with d show ?thesis by metis
qed

lemma destination_keep_child:
  assumes "destination w location a True = Returns p w1"
  shows "\<exists>n. CHR ''/'' \<notin> set n \<and> p = join location n"
proof -
  from assms obtain name where n: "sanitize_filename (get_filename a) = Inr name"
    and g: "get_unique_path w (join location name) = Returns p w1"
    by (auto simp: destination_def split: sum.splits)
  from n have sep: "CHR ''/'' \<notin> set name" by (rule sanitized_no_sep)
  let ?L = "if location = [] \<or> last location = CHR ''/'' then location else location @ ''/''"
  have L: "?L = [] \<or> last ?L = CHR ''/''" by simp
  have j: "join location name = ?L @ name" using sep by (rule join_cases)
  let ?stem = "fst (splitext (?L @ name))" and ?ext = "snd (splitext (?L @ name))"
  from g have "get_unique_path_loop w ?stem ?ext (?L @ name) = Returns p w1"
    by (simp add: get_unique_path_def case_prod_beta j)
  from get_unique_path_loop_returns [OF this]
  have "p = ?L @ name \<or>
      (\<exists>suffix. set suffix \<subseteq> set (ascii_letters @ digits) \<and> p = ?stem @ ''_'' @ suffix @ ?ext)"
    by (auto split: if_splits)
  then show ?thesis
  proof
    assume "p = ?L @ name"
    with j sep show ?thesis by metis
  next
    assume "\<exists>suffix. set suffix \<subseteq> set (ascii_letters @ digits) \<and> p = ?stem @ ''_'' @ suffix @ ?ext"
    then obtain suffix where su: "set suffix \<subseteq> set (ascii_letters @ digits)"
      and p: "p = ?stem @ ''_'' @ suffix @ ?ext" by blast
    have "?stem @ ?ext = ?L @ name" by (rule splitext_append)
    moreover have "length ?L \<le> length ?stem" using L sep by (rule splitext_stem_length)
    ultimately obtain n1 where n1: "?stem = ?L @ n1" "name = n1 @ ?ext"
      using append_split_left [of ?stem ?ext ?L name] by blast
    let ?n = "n1 @ ''_'' @ suffix @ ?ext"
    from n1(2) sep have "CHR ''/'' \<notin> set n1" "CHR ''/'' \<notin> set ?ext"
      by (metis Un_iff set_append)+
    moreover from su alphabet_no_dot_sep(2) have "CHR ''/'' \<notin> set suffix" by blast
    ultimately have "CHR ''/'' \<notin> set ?n" by simp
    moreover from this have "join location ?n = ?L @ ?n" by (rule join_cases)
    with p n1(1) have "p = join location ?n" by simp
    ultimately show ?thesis by blast
  qed
qed

lemma save_attachment_keep_frame:
  assumes "final_world (save_attachment w location a True) = Some w'"
  shows "preserves w w' \<and> within location w w'"
proof -
  from save_attachment_final [OF assms] obtain w1 where
    w1: "final_world (destination w location a True) = Some w1"
    and alt: "w' = w1 \<or> (\<exists>q. destination w location a True = Returns q w1 \<and>
                      final_world (write_payload w1 q a) = Some w')" by blast
  from destination_keep_final [OF w1] have fw1: "files w1 = files w" by auto
  from alt show ?thesis
  proof
    assume "w' = w1"
    with fw1 show ?thesis by (simp add: preserves_same_files within_same_files)
  next
    assume "\<exists>q. destination w location a True = Returns q w1 \<and>
                      final_world (write_payload w1 q a) = Some w'"
    then obtain q where q: "destination w location a True = Returns q w1"
      and wp: "final_world (write_payload w1 q a) = Some w'" by blast
    from destination_keep_final [OF w1] q have nq: "\<not> os_path_exists w q" by auto
    from destination_keep_child [OF q]
    have pq: "\<exists>n. CHR ''/'' \<notin> set n \<and> q = join location n" .
    from write_payload_final [OF wp] fw1
    have ch: "\<forall>p. files w' p \<noteq> files w p \<longrightarrow> p = q" by (auto split: if_splits)
    with nq have "preserves w w'" unfolding preserves_def by metis
    moreover from ch pq have "within location w w'" unfolding within_def by metis
    ultimately show ?thesis by blast
  qed
qed

lemma save_all_keep_frame:
  "final_world (save_all w location attachments True) = Some w' \<Longrightarrow>
   preserves w w' \<and> within location w w'"
proof (induction attachments arbitrary: w)
  case Nil
  then show ?case by (simp add: preserves_refl within_same_files)
next
  case (Cons a attachments)
  from Cons.prems have "final_world (and_then (save_attachment w location a True)
       (\<lambda>_ w1. save_all w1 location attachments True)) = Some w'" by simp
  from and_then_final [OF this] show ?case
  proof
    assume "\<exists>e. save_attachment w location a True = Raises e w'"
    then have "final_world (save_attachment w location a True) = Some w'" by auto
    then show ?thesis by (rule save_attachment_keep_frame)
  next
    assume "\<exists>x w1. save_attachment w location a True = Returns x w1 \<and>
        final_world (save_all w1 location attachments True) = Some w'"
    then obtain x w1 where s: "save_attachment w location a True = Returns x w1"
      and r: "final_world (save_all w1 location attachments True) = Some w'" by blast
    from s have "final_world (save_attachment w location a True) = Some w1" by simp
    from save_attachment_keep_frame [OF this] Cons.IH [OF r] show ?thesis
      by (metis preserves_trans within_trans)
  qed
qed

subsection \<open>Failures while writing\<close>

lemma save_all_stops:
  "save_all w location pre k = Returns () w1 \<Longrightarrow>
   save_attachment w1 location a k = Raises e w2 \<Longrightarrow>
   save_all w location (pre @ a # post) k = Raises e w2"
proof (induction pre arbitrary: w)
  case Nil
  then show ?case by (simp add: and_then_def)
next
  case (Cons x pre)
  from Cons.prems(1) obtain wx where x: "save_attachment w location x k = Returns () wx"
    and rest: "save_all wx location pre k = Returns () w1"
    by (auto simp: and_then_def split: outcome.splits)
  from Cons.IH [OF rest Cons.prems(2)] x show ?case by (simp add: and_then_def)
qed

lemma try_extract_raises:
  "choose_location a eml w = Returns location w0 \<Longrightarrow>
   makedirs w0 location = Returns () w1 \<Longrightarrow>
   save_all w1 location attachments (keep a) = Raises e w2 \<Longrightarrow>
   try_extract a eml attachments w = Raises e w2"
  by (simp add: try_extract_def and_then_def)

lemma process_eml_raises:
  "load_message parse w eml = Inr m \<Longrightarrow>
   get_attachments m = Some attachments \<Longrightarrow> attachments \<noteq> [] \<Longrightarrow>
   try_extract a eml attachments w = Raises e w' \<Longrightarrow>
   process_eml parse a eml w =
     Some (print_err w' (''Error: '' @ basename eml @ '' <'' @ str_of_error e @ ''>''))"
  by (cases attachments) (simp_all add: process_eml_def)

lemma process_eml_write_failure:
  assumes "load_message parse w eml = Inr m"
    and "get_attachments m = Some (pre @ a # post)"
    and "choose_location ar eml w = Returns location w0"
    and "makedirs w0 location = Returns () w1"
    and "save_all w1 location pre (keep ar) = Returns () w2"
    and "save_attachment w2 location a (keep ar) = Raises e w3"
  shows "process_eml parse ar eml w =
     Some (print_err w3 (''Error: '' @ basename eml @ '' <'' @ str_of_error e @ ''>''))"
proof -
  from assms(5,6) have "save_all w1 location (pre @ a # post) (keep ar) = Raises e w3"
    by (rule save_all_stops)
  with assms(3,4) have "try_extract ar eml (pre @ a # post) w = Raises e w3"
    by (rule try_extract_raises)
  with assms(1,2) show ?thesis by (intro process_eml_raises) auto
qed

lemma destination_streams:
  assumes "final_world (destination w location a k) = Some w1"
  shows "stdout w1 = stdout w \<and> stderr w1 = stderr w"
proof (cases k)
  case True
  with assms destination_keep_final [of w location a w1] show ?thesis by auto
next
  case False
  with assms show ?thesis by (auto simp: destination_def split: sum.splits)
qed

lemma save_attachment_streams:
  assumes "final_world (save_attachment w location a k) = Some w'"
  shows "stdout w' = stdout w \<and> stderr w' = stderr w"
proof -
  from save_attachment_final [OF assms] obtain w1 where
    w1: "final_world (destination w location a k) = Some w1"
    and alt: "w' = w1 \<or> (\<exists>p. destination w location a k = Returns p w1 \<and>
                      final_world (write_payload w1 p a) = Some w')" by blast
  have "stdout w' = stdout w1 \<and> stderr w' = stderr w1"
  proof (cases "w' = w1")
    case True
    then show ?thesis by simp
  next
    case False
    with alt obtain p where "final_world (write_payload w1 p a) = Some w'" by blast
    from write_payload_final [OF this] show ?thesis by auto
  qed
  with destination_streams [OF w1] show ?thesis by simp
qed

lemma save_all_streams:
  "final_world (save_all w location attachments k) = Some w' \<Longrightarrow>
   stdout w' = stdout w \<and> stderr w' = stderr w"
proof (induction attachments arbitrary: w)
  case Nil
  then show ?case by simp
next
  case (Cons a attachments)
  from Cons.prems have "final_world (and_then (save_attachment w location a k)
       (\<lambda>_ w1. save_all w1 location attachments k)) = Some w'" by simp
  from and_then_final [OF this] show ?case
  proof
    assume "\<exists>e. save_attachment w location a k = Raises e w'"
    then have "final_world (save_attachment w location a k) = Some w'" by auto
    then show ?thesis by (rule save_attachment_streams)
  next
    assume "\<exists>x w1. save_attachment w location a k = Returns x w1 \<and>
        final_world (save_all w1 location attachments k) = Some w'"
    then obtain x w1 where s: "save_attachment w location a k = Returns x w1"
      and r: "final_world (save_all w1 location attachments k) = Some w'" by blast
    from s have "final_world (save_attachment w location a k) = Some w1" by simp
    from save_attachment_streams [OF this] Cons.IH [OF r] show ?thesis by simp
  qed
qed

lemma makedirs_streams:
  assumes "final_world (makedirs w name) = Some w'"
  shows "stdout w' = stdout w \<and> stderr w' = stderr w"
proof -
  from makedirs_frame [OF assms] obtain fs where "w' = w\<lparr>files := fs\<rparr>" by blast
  then show ?thesis by simp
qed

lemma choose_location_streams:
  assumes "final_world (choose_location ar eml w) = Some w1"
  shows "stdout w1 = stdout w \<and> stderr w1 = stderr w"
proof (cases "organize ar \<and> keep ar")
  case True
  with assms have "final_world (get_unique_path w
      (join ''attachments'' (basename (fst (splitext eml))))) = Some w1"
    by (simp add: choose_location_def)
  from get_unique_path_final [OF this] show ?thesis by auto
next
  case False
  with assms show ?thesis by (auto simp: choose_location_def Let_def split: if_splits)
qed

lemma streams_until_failure:
  assumes "choose_location ar eml w = Returns location w0"
    and "makedirs w0 location = Returns () w1"
    and "save_all w1 location pre (keep ar) = Returns () w2"
    and "final_world (save_attachment w2 location a (keep ar)) = Some w3"
  shows "stdout w3 = stdout w \<and> stderr w3 = stderr w"
proof -
  from assms(1) have "final_world (choose_location ar eml w) = Some w0" by simp
  note s0 = choose_location_streams [OF this]
  from assms(2) have "final_world (makedirs w0 location) = Some w1" by simp
  note s1 = makedirs_streams [OF this]
  from assms(3) have "final_world (save_all w1 location pre (keep ar)) = Some w2" by simp
  note s2 = save_all_streams [OF this]
  note s3 = save_attachment_streams [OF assms(4)]
  from s0 s1 s2 s3 show ?thesis by simp
qed

lemma ex_paths:
  "basename ''clash.eml'' = ''clash.eml''"
  "basename ''nameless.eml'' = ''nameless.eml''"
  "makedirs_split ''attachments'' = ([], ''attachments'')"
  by code_simp+

lemma ex_loads:
  "load_message ex_parse ex_world ''clash.eml'' = Inr ex_clash_mixed"
  "load_message ex_parse ex_world ''nameless.eml'' = Inr ex_nameless_mixed"
  "load_message ex_parse ex_world ''mail.eml'' = Inr ex_mixed"
  by (simp_all add: load_message_def open_read_def ex_world_def ex_parse_def)

lemma ex_makedirs: "makedirs ex_world ''attachments'' = Returns () ex_world"
  by (subst makedirs.simps)
     (simp add: ex_paths mkdir_exist_ok_def mkdir_def os_path_exists_def os_path_isdir_def
        ex_world_def)

lemma ex_save_pdf:
  "save_attachment ex_world ''attachments'' ex_pdf False =
     Returns () (ex_world\<lparr>files :=
       (files ex_world)(''attachments/invoice.pdf'' \<mapsto> File (Binary ''%PDF-1.4''))\<rparr>)"
  by (simp add: save_attachment_def destination_def and_then_def write_payload_def
      open_write_def write_file_def join_def ex_pdf_def part_def sanitize_examples ex_world_def)

text \<open>
  C6: when the attachments before \<open>a\<close> were written and writing \<open>a\<close> raises \<open>e\<close>,
  the loop over the attachments ends in the world the failed call left, whatever
  follows \<open>a\<close>; the round for this file adds to the error stream one line that holds
  \<open>str(e)\<close>, changes no file further, and the run goes on with the next input file.
\<close>

theorem write_failure_skips_rest_of_file:
  assumes "load_message parse w eml = Inr m"
    and "get_attachments m = Some (pre @ a # post)"
    and "choose_location ar eml w = Returns location w0"
    and "makedirs w0 location = Returns () w1"
    and "save_all w1 location pre (keep ar) = Returns () w2"
    and "save_attachment w2 location a (keep ar) = Raises e w3"
  shows "save_all w1 location (pre @ a # post) (keep ar) = Raises e w3 \<and>
     process_eml parse ar eml w =
       Some (print_err w3 (''Error: '' @ basename eml @ '' <'' @ str_of_error e @ ''>'')) \<and>
     files (print_err w3 (''Error: '' @ basename eml @ '' <'' @ str_of_error e @ ''>'')) = files w3 \<and>
     stdout (print_err w3 (''Error: '' @ basename eml @ '' <'' @ str_of_error e @ ''>'')) = stdout w \<and>
     stderr (print_err w3 (''Error: '' @ basename eml @ '' <'' @ str_of_error e @ ''>'')) =
       stderr w @ [''Error: '' @ basename eml @ '' <'' @ str_of_error e @ ''>''] \<and>
     main_loop parse ar (eml # emls) w =
       main_loop parse ar emls
         (print_err w3 (''Error: '' @ basename eml @ '' <'' @ str_of_error e @ ''>''))"
proof -
  have 1: "save_all w1 location (pre @ a # post) (keep ar) = Raises e w3"
    using assms(5,6) by (rule save_all_stops)
  have 2: "process_eml parse ar eml w =
       Some (print_err w3 (''Error: '' @ basename eml @ '' <'' @ str_of_error e @ ''>''))"
    using assms by (rule process_eml_write_failure)
  from assms(6) have "final_world (save_attachment w2 location a (keep ar)) = Some w3" by simp
  note 3 = streams_until_failure [OF assms(3,4,5) this]
  from 1 2 3 show ?thesis by (simp add: print_err_def)
qed

theorem write_failure_skips_rest_of_file_witness:
  "load_message ex_parse ex_world ''clash.eml'' = Inr ex_clash_mixed \<and>
   get_attachments ex_clash_mixed = Some ([ex_pdf] @ ex_old # [ex_logo]) \<and>
   save_attachment
     (ex_world\<lparr>files :=
        (files ex_world)(''attachments/invoice.pdf'' \<mapsto> File (Binary ''%PDF-1.4''))\<rparr>)
     ''attachments'' ex_old False =
     Raises (IsADirectoryError (''[Errno 21] Is a directory: '' @ quoted ''attachments/old''))
       (ex_world\<lparr>files :=
          (files ex_world)(''attachments/invoice.pdf'' \<mapsto> File (Binary ''%PDF-1.4''))\<rparr>) \<and>
   process_eml ex_parse (ex_args False False) ''clash.eml'' ex_world =
     Some (print_err
       (ex_world\<lparr>files :=
          (files ex_world)(''attachments/invoice.pdf'' \<mapsto> File (Binary ''%PDF-1.4''))\<rparr>)
       (''Error: clash.eml <[Errno 21] Is a directory: '' @ quoted ''attachments/old'' @ ''>''))"
proof -
  let ?w2 = "ex_world\<lparr>files :=
        (files ex_world)(''attachments/invoice.pdf'' \<mapsto> File (Binary ''%PDF-1.4''))\<rparr>"
  have h1: "load_message ex_parse ex_world ''clash.eml'' = Inr ex_clash_mixed"
    by (rule ex_loads)
  have h2: "get_attachments ex_clash_mixed = Some ([ex_pdf] @ ex_old # [ex_logo])"
    by (simp add: get_attachments_def ex_clash_mixed_def)
  have h3: "choose_location (ex_args False False) ''clash.eml'' ex_world =
      Returns ''attachments'' ex_world"
    by (simp add: choose_location_def ex_args_def)
  have h4: "makedirs ex_world ''attachments'' = Returns () ex_world"
    by (rule ex_makedirs)
  have h5: "save_all ex_world ''attachments'' [ex_pdf] (keep (ex_args False False)) = Returns () ?w2"
    by (simp add: ex_save_pdf and_then_def ex_args_def)
  have h6: "save_attachment ?w2 ''attachments'' ex_old (keep (ex_args False False)) =
      Raises (IsADirectoryError (''[Errno 21] Is a directory: '' @ quoted ''attachments/old'')) ?w2"
    by (simp add: save_attachment_def destination_def and_then_def write_payload_def
        open_write_def join_def ex_old_def part_def sanitize_examples ex_world_def ex_args_def)
  from write_failure_skips_rest_of_file [OF h1 h2 h3 h4 h5 h6, of "[]"] h1 h2 h6
  show ?thesis by (simp add: ex_paths ex_args_def)
qed

text \<open>
  C10: for an attachment without a file name, \<open>save_attachment\<close> raises the
  \<open>TypeError\<close> of \<open>re.sub\<close> and leaves the world as it found it: no path is built, no
  file opened, no draw made.  The loop over the attachments stops there, and the round
  for the input file ends with the error line for that exception.
\<close>

theorem missing_filename_raises:
  assumes "get_filename a = None"
    and "load_message parse w eml = Inr m"
    and "get_attachments m = Some (pre @ a # post)"
    and "choose_location ar eml w = Returns location w0"
    and "makedirs w0 location = Returns () w1"
    and "save_all w1 location pre (keep ar) = Returns () w2"
  shows "save_attachment w2 location a (keep ar) =
       Raises (TypeError ''expected string or bytes-like object'') w2 \<and>
     save_all w1 location (pre @ a # post) (keep ar) =
       Raises (TypeError ''expected string or bytes-like object'') w2 \<and>
     process_eml parse ar eml w =
       Some (print_err w2
              (''Error: '' @ basename eml @ '' <expected string or bytes-like object>'')) \<and>
     stdout w2 = stdout w \<and> stderr w2 = stderr w"
proof -
  have s: "save_attachment w2 location a (keep ar) =
       Raises (TypeError ''expected string or bytes-like object'') w2"
    using assms(1)
    by (simp add: save_attachment_def destination_def sanitize_filename_def and_then_def)
  from assms(6) s have "save_all w1 location (pre @ a # post) (keep ar) =
       Raises (TypeError ''expected string or bytes-like object'') w2"
    by (rule save_all_stops)
  moreover from process_eml_write_failure [OF assms(2-6) s]
  have "process_eml parse ar eml w =
       Some (print_err w2
              (''Error: '' @ basename eml @ '' <expected string or bytes-like object>''))"
    by simp
  moreover from s have "final_world (save_attachment w2 location a (keep ar)) = Some w2" by simp
  note streams_until_failure [OF assms(4,5,6) this]
  ultimately show ?thesis using s by simp
qed

theorem missing_filename_raises_witness:
  "get_filename ex_nameless = None \<and>
   load_message ex_parse ex_world ''nameless.eml'' = Inr ex_nameless_mixed \<and>
   get_attachments ex_nameless_mixed = Some ([ex_pdf] @ ex_nameless # [ex_logo]) \<and>
   process_eml ex_parse (ex_args False False) ''nameless.eml'' ex_world =
     Some (print_err
       (ex_world\<lparr>files :=
          (files ex_world)(''attachments/invoice.pdf'' \<mapsto> File (Binary ''%PDF-1.4''))\<rparr>)
       ''Error: nameless.eml <expected string or bytes-like object>'')"
proof -
  let ?w2 = "ex_world\<lparr>files :=
        (files ex_world)(''attachments/invoice.pdf'' \<mapsto> File (Binary ''%PDF-1.4''))\<rparr>"
  have h0: "get_filename ex_nameless = None"
    by (simp add: ex_nameless_def part_def)
  have h1: "load_message ex_parse ex_world ''nameless.eml'' = Inr ex_nameless_mixed"
    by (rule ex_loads)
  have h2: "get_attachments ex_nameless_mixed = Some ([ex_pdf] @ ex_nameless # [ex_logo])"
    by (simp add: get_attachments_def ex_nameless_mixed_def)
  have h3: "choose_location (ex_args False False) ''nameless.eml'' ex_world =
      Returns ''attachments'' ex_world"
    by (simp add: choose_location_def ex_args_def)
  have h4: "makedirs ex_world ''attachments'' = Returns () ex_world"
    by (rule ex_makedirs)
  have h5: "save_all ex_world ''attachments'' [ex_pdf] (keep (ex_args False False)) = Returns () ?w2"
    by (simp add: ex_save_pdf and_then_def ex_args_def)
  from missing_filename_raises [OF h0 h1 h2 h3 h4 h5] h0 h1 h2
  show ?thesis by (simp add: ex_paths)
qed

subsection \<open>Inputs that cannot be read\<close>

lemma try_extract_email:
  "try_extract (a\<lparr>email := x\<rparr>) eml attachments w = try_extract a eml attachments w"
  by (simp add: try_extract_def choose_location_def)

lemma process_eml_email:
  "process_eml parse (a\<lparr>email := x\<rparr>) eml w = process_eml parse a eml w"
  unfolding process_eml_def try_extract_email by (rule refl)

lemma main_loop_email:
  "main_loop parse (a\<lparr>email := x\<rparr>) emls w = main_loop parse a emls w"
  by (induction emls arbitrary: w) (simp_all add: process_eml_email cong: option.case_cong)

lemma process_eml_read_failure:
  "load_message parse w eml = Inl e \<Longrightarrow>
   process_eml parse a eml w = Some (print_err w (''Error: '' @ eml @ '' <failed to read file>''))"
  by (simp add: process_eml_def)

lemma glob_missing:
  "\<not> has_magic pattern \<Longrightarrow> snd (split pattern) \<noteq> [] \<Longrightarrow> \<not> os_path_exists w pattern \<Longrightarrow>
   glob w pattern = []"
  by (simp add: glob_def)

text \<open>
  C7, as the code has it: for every path the expansion of the arguments yields and
  that cannot be opened or parsed, the round prints
  \<open>Error: <path> <failed to read file>\<close> to the error stream, changes no file and
  prints no result line, and the run goes on with the next path.  An argument without
  wildcards that names a missing file is dropped by \<open>glob\<close> before the loop starts:
  the run is the run without that argument, and no line is printed for it.
\<close>

theorem unreadable_input_reported:
  "(load_message parse w eml = Inl e \<longrightarrow>
      process_eml parse a eml w =
        Some (print_err w (''Error: '' @ eml @ '' <failed to read file>'')) \<and>
      files (print_err w (''Error: '' @ eml @ '' <failed to read file>'')) = files w \<and>
      stdout (print_err w (''Error: '' @ eml @ '' <failed to read file>'')) = stdout w \<and>
      stderr (print_err w (''Error: '' @ eml @ '' <failed to read file>'')) =
        stderr w @ [''Error: '' @ eml @ '' <failed to read file>''] \<and>
      main_loop parse a (eml # emls) w =
        main_loop parse a emls (print_err w (''Error: '' @ eml @ '' <failed to read file>''))) \<and>
   (\<not> has_magic pattern \<and> snd (split pattern) \<noteq> [] \<and> \<not> os_path_exists w pattern \<longrightarrow>
      glob w pattern = [] \<and>
      main parse (a\<lparr>email := pattern # patterns\<rparr>) w = main parse (a\<lparr>email := patterns\<rparr>) w)"
  by (simp add: process_eml_read_failure glob_missing main_def print_err_def main_loop_email)

lemma ex_globs:
  "\<not> has_magic ''missing.eml''" "snd (split ''missing.eml'') \<noteq> []"
  "\<not> has_magic ''locked.eml''" "snd (split ''locked.eml'') \<noteq> []"
  "\<not> has_magic ''mail.eml''" "snd (split ''mail.eml'') \<noteq> []"
  by code_simp+

lemma ex_glob_results:
  "glob ex_world ''missing.eml'' = []"
  "glob ex_world ''locked.eml'' = [''locked.eml'']"
  "glob ex_world ''mail.eml'' = [''mail.eml'']"
  by (simp_all add: glob_def ex_globs os_path_exists_def ex_world_def)

lemma ex_load_locked:
  "load_message ex_parse ex_world ''locked.eml'' =
     Inl (OSError (''[Errno 13] Permission denied: '' @ quoted ''locked.eml''))"
  by (simp add: load_message_def open_read_def ex_world_def)

lemma ex_run:
  "map_option stderr (main ex_parse (ex_args False False) ex_world) =
     Some [''Error: locked.eml <failed to read file>'']"
  "map_option stdout (main ex_parse (ex_args False False) ex_world) = Some [''mail.eml (2)'']"
  "map_option (\<lambda>w. files w ''attachments/invoice.pdf'')
     (main ex_parse (ex_args False False) ex_world) = Some (Some (File (Binary ''%PDF-1.4'')))"
  "map_option (\<lambda>w. files w ''attachments/logo.png'')
     (main ex_parse (ex_args False False) ex_world) = Some (Some (File (Binary ''PNG'')))"
  by code_simp+

theorem unreadable_input_reported_witness:
  "load_message ex_parse ex_world ''locked.eml'' =
     Inl (OSError (''[Errno 13] Permission denied: '' @ quoted ''locked.eml'')) \<and>
   process_eml ex_parse (ex_args False False) ''locked.eml'' ex_world =
     Some (print_err ex_world ''Error: locked.eml <failed to read file>'') \<and>
   \<not> has_magic ''missing.eml'' \<and> snd (split ''missing.eml'') \<noteq> [] \<and>
   \<not> os_path_exists ex_world ''missing.eml'' \<and>
   glob ex_world ''missing.eml'' = [] \<and>
   map_option stderr (main ex_parse (ex_args False False) ex_world) =
     Some [''Error: locked.eml <failed to read file>''] \<and>
   map_option stdout (main ex_parse (ex_args False False) ex_world) = Some [''mail.eml (2)'']"
proof -
  have ne: "\<not> os_path_exists ex_world ''missing.eml''"
    by (simp add: os_path_exists_def ex_world_def)
  note inst = unreadable_input_reported [of ex_parse ex_world "''locked.eml''" _
      "ex_args False False" "[''mail.eml'']" "''missing.eml''" "[''locked.eml'', ''mail.eml'']"]
  have p: "process_eml ex_parse (ex_args False False) ''locked.eml'' ex_world =
     Some (print_err ex_world ''Error: locked.eml <failed to read file>'')"
    using conjunct1 [OF mp [OF conjunct1 [OF inst] ex_load_locked]] by simp
  have c: "\<not> has_magic ''missing.eml'' \<and> snd (split ''missing.eml'') \<noteq> [] \<and>
      \<not> os_path_exists ex_world ''missing.eml''"
    using ex_globs(1,2) ne by (intro conjI)
  have g: "glob ex_world ''missing.eml'' = []"
    by (rule conjunct1 [OF mp [OF conjunct2 [OF inst] c]])
  from ex_load_locked p c g ex_run(1,2) show ?thesis by (intro conjI) (erule conjunct1 conjunct2 | assumption | (drule conjunct2, erule conjunct1 conjunct2))+
qed

text \<open>
  C7 as stated asks for an error line for a missing file too.  Run on the single
  argument \<open>missing.eml\<close>, which names no entry, the program ends in the world it
  started in: the error stream is still empty.
\<close>

theorem missing_input_counterexample:
  "files ex_world ''missing.eml'' = None \<and>
   main ex_parse \<lparr>email = [''missing.eml''], organize = False, keep = False\<rparr> ex_world =
     Some ex_world \<and>
   stderr ex_world = []"
  by (simp add: main_def ex_glob_results) (simp add: ex_world_def)

subsection \<open>Fresh directories in organize and keep mode\<close>

lemma choose_location_both:
  "organize ar \<Longrightarrow> keep ar \<Longrightarrow>
   choose_location ar eml w =
     get_unique_path w (join ''attachments'' (basename (fst (splitext eml))))"
  by (simp add: choose_location_def)

lemma choose_location_final:
  assumes "final_world (choose_location ar eml w) = Some w1"
  shows "files w1 = files w \<and> (\<exists>location. choose_location ar eml w = Returns location w1)"
proof (cases "organize ar \<and> keep ar")
  case True
  with assms have "final_world (get_unique_path w
      (join ''attachments'' (basename (fst (splitext eml))))) = Some w1"
    by (simp add: choose_location_both)
  from get_unique_path_final [OF this] True show ?thesis
    by (auto simp: choose_location_both)
next
  case False
  with assms show ?thesis by (auto simp: choose_location_def Let_def split: if_splits)
qed

lemma try_extract_keep_frame:
  assumes k: "keep ar"
    and c: "choose_location ar eml w = Returns location w1"
    and f: "final_world (try_extract ar eml attachments w) = Some w'"
  shows "preserves w w' \<and> within location w w'"
proof -
  from c have "final_world (choose_location ar eml w) = Some w1" by simp
  from choose_location_final [OF this] have fw1: "files w1 = files w" by blast
  then have p01: "preserves w w1" and i01: "within location w w1"
    by (simp_all add: preserves_same_files within_same_files)
  from f c k have "final_world (and_then (makedirs w1 location) (\<lambda>_ w2.
       and_then (save_all w2 location attachments True) (\<lambda>_ w3.
         Returns () (print_out w3 (eml @ '' ('' @ str_nat (length attachments) @ '')''))))) = Some w'"
    by (simp add: try_extract_def and_then_def)
  from and_then_final [OF this] show ?thesis
  proof
    assume "\<exists>e. makedirs w1 location = Raises e w'"
    then have "final_world (makedirs w1 location) = Some w'" by auto
    from makedirs_frame [OF this] have "preserves w1 w'" "within location w1 w'"
      by (auto simp: within_def)
    with p01 i01 show ?thesis by (metis preserves_trans within_trans)
  next
    assume "\<exists>x w2. makedirs w1 location = Returns x w2 \<and>
      final_world (and_then (save_all w2 location attachments True) (\<lambda>_ w3.
         Returns () (print_out w3 (eml @ '' ('' @ str_nat (length attachments) @ '')'')))) = Some w'"
    then obtain x w2 where m: "makedirs w1 location = Returns x w2"
      and r: "final_world (and_then (save_all w2 location attachments True) (\<lambda>_ w3.
         Returns () (print_out w3 (eml @ '' ('' @ str_nat (length attachments) @ '')'')))) = Some w'"
      by blast
    from m have "final_world (makedirs w1 location) = Some w2" by simp
    from makedirs_frame [OF this] have "preserves w1 w2" "within location w1 w2"
      by (auto simp: within_def)
    with p01 i01 have p02: "preserves w w2" and i02: "within location w w2"
      by (metis preserves_trans, metis within_trans)
    from and_then_final [OF r] show ?thesis
    proof
      assume "\<exists>e. save_all w2 location attachments True = Raises e w'"
      then have "final_world (save_all w2 location attachments True) = Some w'" by auto
      from save_all_keep_frame [OF this] p02 i02 show ?thesis
        by (metis preserves_trans within_trans)
    next
      assume "\<exists>x w3. save_all w2 location attachments True = Returns x w3 \<and>
        final_world (Returns () (print_out w3 (eml @ '' ('' @ str_nat (length attachments) @ '')'')))
          = Some w'"
      then obtain y w3 where s: "save_all w2 location attachments True = Returns y w3"
        and w': "w' = print_out w3 (eml @ '' ('' @ str_nat (length attachments) @ '')'')"
        by auto
      from s have "final_world (save_all w2 location attachments True) = Some w3" by simp
      from save_all_keep_frame [OF this] p02 i02
      have "preserves w w3" "within location w w3" by (metis preserves_trans, metis within_trans)
      moreover from w' have "files w' = files w3" by (simp add: print_out_def)
      ultimately show ?thesis by (simp add: preserves_def within_def)
    qed
  qed
qed

lemma try_extract_keep_preserves:
  assumes k: "keep ar" and f: "final_world (try_extract ar eml attachments w) = Some w'"
  shows "preserves w w'"
proof -
  from f have "final_world (and_then (choose_location ar eml w) (\<lambda>location w1.
     and_then (makedirs w1 location) (\<lambda>_ w2.
     and_then (save_all w2 location attachments (keep ar)) (\<lambda>_ w3.
       Returns () (print_out w3 (eml @ '' ('' @ str_nat (length attachments) @ '')'')))))) = Some w'"
    by (simp add: try_extract_def)
  from and_then_final [OF this] show ?thesis
  proof
    assume "\<exists>e. choose_location ar eml w = Raises e w'"
    then have "final_world (choose_location ar eml w) = Some w'" by auto
    from choose_location_final [OF this] show ?thesis by (simp add: preserves_same_files)
  next
    assume "\<exists>x w1. choose_location ar eml w = Returns x w1 \<and>
      final_world (and_then (makedirs w1 x) (\<lambda>_ w2.
        and_then (save_all w2 x attachments (keep ar)) (\<lambda>_ w3.
          Returns () (print_out w3 (eml @ '' ('' @ str_nat (length attachments) @ '')''))))) = Some w'"
    then obtain location w1 where "choose_location ar eml w = Returns location w1" by blast
    from try_extract_keep_frame [OF k this f] show ?thesis by blast
  qed
qed

lemma process_eml_keep_preserves:
  assumes k: "keep ar" and p: "process_eml parse ar eml w = Some w'"
  shows "preserves w w'"
proof (cases "load_message parse w eml")
  case (Inl e)
  with p show ?thesis by (auto simp: process_eml_def print_err_def preserves_def)
next
  case (Inr m)
  show ?thesis
  proof (cases "get_attachments m = None \<or> get_attachments m = Some []")
    case True
    with p Inr show ?thesis by (auto simp: process_eml_def print_out_def preserves_def)
  next
    case False
    then obtain a as where g: "get_attachments m = Some (a # as)"
      by (cases "get_attachments m") (auto simp: neq_Nil_conv)
    show ?thesis
    proof (cases "try_extract ar eml (a # as) w")
      case (Returns u w1)
      with p Inr g have "w' = w1" by (simp add: process_eml_def)
      with Returns try_extract_keep_preserves [OF k, of eml "a # as" w w'] show ?thesis by simp
    next
      case (Raises e w1)
      with p Inr g have w': "w' = print_err w1
          (''Error: '' @ basename eml @ '' <'' @ str_of_error e @ ''>'')"
        by (simp add: process_eml_def)
      from Raises try_extract_keep_preserves [OF k, of eml "a # as" w w1]
      have "preserves w w1" by simp
      with w' show ?thesis by (simp add: preserves_def print_err_def)
    next
      case OutOfDraws
      with p Inr g show ?thesis by (simp add: process_eml_def)
    qed
  qed
qed

lemma main_loop_keep_preserves:
  "keep ar \<Longrightarrow> main_loop parse ar emls w = Some w' \<Longrightarrow> preserves w w'"
proof (induction emls arbitrary: w)
  case Nil
  then show ?case by (simp add: preserves_refl)
next
  case (Cons eml emls)
  from Cons.prems(2) obtain w1 where p: "process_eml parse ar eml w = Some w1"
    and r: "main_loop parse ar emls w1 = Some w'"
    by (auto split: option.splits)
  from process_eml_keep_preserves [OF Cons.prems(1) p] Cons.IH [OF Cons.prems(1) r]
  show ?case by (rule preserves_trans)
qed

text \<open>
  C8: in a run with both flags, at any input file reached (\<open>w\<close> is the world after the
  files \<open>pre\<close> before it, \<open>w0\<close> the world at the start of the run), the output
  directory is what the resolver returns for \<open>attachments/<stem>\<close>; it exists neither
  in \<open>w\<close> nor in \<open>w0\<close>; it is created by \<open>makedirs\<close> only after that, and the
  attachments are saved with it as their location.  Whatever the round then does, every
  entry that existed before the run is unchanged, and the file system changes only at
  the new directory, at the paths it begins with (the directories above it), and at
  paths \<open>join location name\<close> directly in it.
\<close>

theorem organize_keep_fresh_directory:
  assumes "organize ar" and "keep ar" and "main_loop parse ar pre w0 = Some w"
  shows "choose_location ar eml w =
       get_unique_path w (join ''attachments'' (basename (fst (splitext eml)))) \<and>
     (\<forall>location w1. choose_location ar eml w = Returns location w1 \<longrightarrow>
        \<not> os_path_exists w location \<and> \<not> os_path_exists w0 location \<and> files w1 = files w \<and>
        try_extract ar eml attachments w =
          and_then (makedirs w1 location) (\<lambda>_ w2.
          and_then (save_all w2 location attachments True) (\<lambda>_ w3.
            Returns () (print_out w3 (eml @ '' ('' @ str_nat (length attachments) @ '')'')))) \<and>
        (\<forall>w'. final_world (try_extract ar eml attachments w) = Some w' \<longrightarrow>
           (\<forall>p. os_path_exists w0 p \<longrightarrow> files w' p = files w0 p) \<and>
           (\<forall>p. files w' p \<noteq> files w p \<longrightarrow>
                prefix p location \<or> (\<exists>name. CHR ''/'' \<notin> set name \<and> p = join location name))))"
proof (intro conjI allI impI)
  show "choose_location ar eml w =
       get_unique_path w (join ''attachments'' (basename (fst (splitext eml))))"
    using assms(1,2) by (rule choose_location_both)
next
  fix location w1
  assume c: "choose_location ar eml w = Returns location w1"
  then have g: "final_world (get_unique_path w
      (join ''attachments'' (basename (fst (splitext eml))))) = Some w1"
    using assms(1,2) by (simp add: choose_location_both)
  from get_unique_path_final [OF g] c assms(1,2)
  show fresh: "\<not> os_path_exists w location" by (auto simp: choose_location_both)
  from main_loop_keep_preserves [OF assms(2,3)] have p0: "preserves w0 w" .
  from preserves_exists [OF p0] fresh show "\<not> os_path_exists w0 location" by blast
  from c have "final_world (choose_location ar eml w) = Some w1" by simp
  from choose_location_final [OF this] show "files w1 = files w" by blast
  from c assms(2) show "try_extract ar eml attachments w =
          and_then (makedirs w1 location) (\<lambda>_ w2.
          and_then (save_all w2 location attachments True) (\<lambda>_ w3.
            Returns () (print_out w3 (eml @ '' ('' @ str_nat (length attachments) @ '')''))))"
    by (simp add: try_extract_def and_then_def)
  fix w'
  assume f: "final_world (try_extract ar eml attachments w) = Some w'"
  from try_extract_keep_frame [OF assms(2) c f]
  have pw: "preserves w w'" and iw: "within location w w'" by blast+
  from preserves_trans [OF p0 pw]
  show "\<And>p. os_path_exists w0 p \<Longrightarrow> files w' p = files w0 p" by (simp add: preserves_def)
  from iw show "\<And>p. files w' p \<noteq> files w p \<Longrightarrow>
      prefix p location \<or> (\<exists>name. CHR ''/'' \<notin> set name \<and> p = join location name)"
    by (simp add: within_def)
qed

lemma ex_mail_location:
  "join ''attachments'' (basename (fst (splitext ''mail.eml''))) = ''attachments/mail''"
  "splitext ''attachments/mail'' = (''attachments/mail'', [])"
  by code_simp+

lemma ex_choose_location:
  "choose_location (ex_args True True) ''mail.eml'' ex_world =
     Returns ''attachments/mail_abcde'' (ex_world\<lparr>rng := [5, 6, 7, 8, 9, 10, 11, 12, 13, 14]\<rparr>)"
  by (simp add: choose_location_def ex_args_def ex_mail_location get_unique_path_def
      get_unique_path_loop.simps os_path_exists_def ex_world_def random_choice_def
      ascii_letters_def digits_def)

lemma ex_organized_run:
  "map_option (\<lambda>w. files w ''attachments/mail_abcde'')
     (process_eml ex_parse (ex_args True True) ''mail.eml'' ex_world) = Some (Some Dir)"
  "map_option (\<lambda>w. files w ''attachments/mail_abcde/invoice.pdf'')
     (process_eml ex_parse (ex_args True True) ''mail.eml'' ex_world) =
     Some (Some (File (Binary ''%PDF-1.4'')))"
  "map_option stdout (process_eml ex_parse (ex_args True True) ''mail.eml'' ex_world) =
     Some [''mail.eml (2)'']"
  by code_simp+

theorem organize_keep_fresh_directory_witness:
  "organize (ex_args True True) \<and> keep (ex_args True True) \<and>
   main_loop ex_parse (ex_args True True) [] ex_world = Some ex_world \<and>
   os_path_exists ex_world ''attachments/mail'' \<and>
   choose_location (ex_args True True) ''mail.eml'' ex_world =
     Returns ''attachments/mail_abcde'' (ex_world\<lparr>rng := [5, 6, 7, 8, 9, 10, 11, 12, 13, 14]\<rparr>) \<and>
   \<not> os_path_exists ex_world ''attachments/mail_abcde'' \<and>
   map_option (\<lambda>w. files w ''attachments/mail_abcde'')
     (process_eml ex_parse (ex_args True True) ''mail.eml'' ex_world) = Some (Some Dir) \<and>
   map_option (\<lambda>w. files w ''attachments/mail_abcde/invoice.pdf'')
     (process_eml ex_parse (ex_args True True) ''mail.eml'' ex_world) =
     Some (Some (File (Binary ''%PDF-1.4'')))"
proof -
  have h1: "organize (ex_args True True)" and h2: "keep (ex_args True True)"
    by (simp_all add: ex_args_def)
  have h3: "main_loop ex_parse (ex_args True True) [] ex_world = Some ex_world" by simp
  have e: "os_path_exists ex_world ''attachments/mail''"
    by (simp add: os_path_exists_def ex_world_def)
  note inst = organize_keep_fresh_directory [OF h1 h2 h3, of "''mail.eml''" "[ex_pdf, ex_logo]"]
  have fresh: "\<not> os_path_exists ex_world ''attachments/mail_abcde''"
    by (rule conjunct1 [OF mp [OF spec [OF spec [OF conjunct2 [OF inst]]] ex_choose_location]])
  from h1 h2 h3 e ex_choose_location fresh ex_organized_run(1,2) show ?thesis
    by (intro conjI)
qed

end
